theory Spec2Isabelle
  imports Main "HOL-Library.Sublist"
begin

unbundle bit_operations_syntax

section \<open>The environment of package jlog\<close>

text \<open>
  Package \<open>jlog\<close> (file \<open>jlog.go\<close>) is a thin layer over Go's \<open>os\<close>, \<open>path/filepath\<close>,
  \<open>io\<close>, \<open>log\<close> and \<open>fmt\<close> packages. The functions of the package itself are embedded in
  the section after this one; this section is the model of what they call, for a Unix
  target (separator \<open>/\<close>, no volume names, \<open>GOOS = linux\<close>).

  What the model takes for granted: one thread of control, so nothing else changes the
  file system during a call; a write to standard error always succeeds; the only
  symbolic links are dangling ones, so that a path is resolved by its text; access
  control is a predicate on entries, given with the state; the clock and the call stack
  are read from the state.
\<close>

subsection \<open>path/filepath: Clean and Join\<close>

definition IsPathSeparator :: "char \<Rightarrow> bool" where
  "IsPathSeparator c = (c = CHR ''/'')"

text \<open>The test \<open>r+k == n || IsPathSeparator(path[r+k])\<close> on the rest of the input.\<close>

fun at_boundary :: "string \<Rightarrow> bool" where
  "at_boundary [] = True"
| "at_boundary (c # cs) = IsPathSeparator c"

text \<open>
  The second and third case of the \<open>switch\<close> in \<open>Clean\<close>, on the unread input: it
  starts with a \<open>.\<close> element, or with a \<open>..\<close> element.
\<close>

fun dot_element :: "string \<Rightarrow> bool" where
  "dot_element (c # cs) = (c = CHR ''.'' \<and> at_boundary cs)"
| "dot_element [] = False"

fun dotdot_element :: "string \<Rightarrow> bool" where
  "dotdot_element (c # c2 # cs) = (c = CHR ''.'' \<and> c2 = CHR ''.'' \<and> at_boundary cs)"
| "dotdot_element cs = False"

text \<open>
  The \<open>..\<close> case of \<open>Clean\<close> when it can backtrack:
  \<open>out.w--; for out.w > dotdot && !IsPathSeparator(out.index(out.w)) { out.w-- }\<close>.
  The buffer is the list of the bytes written so far, \<open>out.w\<close> its length, and
  \<open>out.index(out.w)\<close> after a decrement is the byte just given up.
\<close>

function unwind :: "string \<Rightarrow> nat \<Rightarrow> string" where
  "unwind out dotdot =
     (if out = [] then []
      else if length (butlast out) > dotdot \<and> \<not> IsPathSeparator (last out)
           then unwind (butlast out) dotdot
           else butlast out)"
  by pat_completeness auto
termination
  by (relation "measure (\<lambda>(out, dotdot). length out)") auto

declare unwind.simps [simp del]

text \<open>
  The main loop of \<open>Clean\<close>, \<open>for r < n { switch ... }\<close>, on the unread input
  \<open>path[r:]\<close> and the pair of the buffer and \<open>dotdot\<close>.
\<close>

function clean_loop :: "bool \<Rightarrow> string \<Rightarrow> string \<times> nat \<Rightarrow> string \<times> nat" where
  "clean_loop rooted [] (out, dotdot) = (out, dotdot)"
| "clean_loop rooted (c # cs) (out, dotdot) =
     (if IsPathSeparator c then clean_loop rooted cs (out, dotdot)
      else if dot_element (c # cs) then clean_loop rooted cs (out, dotdot)
      else if dotdot_element (c # cs)
      then clean_loop rooted (tl cs)
             (if length out > dotdot then (unwind out dotdot, dotdot)
              else if \<not> rooted
                   then (let out1 = (if length out > 0 then out @ ''/'' else out) @ ''..''
                         in (out1, length out1))
                   else (out, dotdot))
      else clean_loop rooted (dropWhile (\<lambda>x. \<not> IsPathSeparator x) cs)
             ((if (rooted \<and> length out \<noteq> 1) \<or> (\<not> rooted \<and> length out \<noteq> 0)
               then out @ ''/'' else out) @ c # takeWhile (\<lambda>x. \<not> IsPathSeparator x) cs,
              dotdot))"
  by pat_completeness auto
termination
proof (relation "measure (\<lambda>(rooted, p, st). length p)")
  fix rooted :: bool and c :: char and cs :: string and out :: string and dotdot :: nat
  assume "dotdot_element (c # cs)"
  then have "cs \<noteq> []"
    by (cases cs) simp_all
  then have "length (tl cs) < length (c # cs)"
    by simp
  then show "((rooted, tl cs, (if dotdot < length out then (unwind out dotdot, dotdot)
                else if \<not> rooted
                     then (let out1 = (if length out > 0 then out @ ''/'' else out) @ ''..''
                           in (out1, length out1))
                     else (out, dotdot))),
              (rooted, c # cs, (out, dotdot))) \<in> measure (\<lambda>(rooted, p, st). length p)"
    by simp
qed (simp_all add: less_Suc_eq_le length_dropWhile_le)

definition Clean :: "string \<Rightarrow> string" where
  "Clean path =
     (if path = [] then ''.''
      else let rooted = IsPathSeparator (hd path);
               res = (if rooted then clean_loop True (tl path) (''/'', 1)
                      else clean_loop False path ([], 0))
           in if fst res = [] then ''.'' else fst res)"

fun strings_Join :: "string list \<Rightarrow> string \<Rightarrow> string" where
  "strings_Join [] sep = []"
| "strings_Join [e] sep = e"
| "strings_Join (e # es) sep = e @ sep @ strings_Join es sep"

text \<open>\<open>filepath.Join\<close>: leading empty elements are skipped, the rest is joined and cleaned.\<close>

fun Join :: "string list \<Rightarrow> string" where
  "Join [] = []"
| "Join (e # es) = (if e \<noteq> [] then Clean (strings_Join (e # es) ''/'') else Join es)"

declare Join.simps [simp del]

definition IsAbs :: "string \<Rightarrow> bool" where
  "IsAbs path = (case path of [] \<Rightarrow> False | c # cs \<Rightarrow> c = CHR ''/'')"


subsection \<open>os: errors, environment, file system\<close>

datatype errno = ENOENT | EEXIST | ENOTDIR | EISDIR | EACCES | EBADF | ErrClosed

text \<open>
  Go's \<open>error\<close> values that occur here: \<open>*fs.PathError\<close> with its \<open>Op\<close>, \<open>Path\<close> and
  \<open>Err\<close>; \<open>os.ErrInvalid\<close>; and the plain message errors made by \<open>errors.New\<close> and by
  \<open>fmt.Errorf\<close> with the verb \<open>%v\<close> (which keeps the message and drops the wrapped error).
  A \<open>nil\<close> error is \<open>None\<close>.
\<close>

datatype error = PathError string string errno | ErrInvalid | ErrorString string

fun errno_text :: "errno \<Rightarrow> string" where
  "errno_text ENOENT = ''no such file or directory''"
| "errno_text EEXIST = ''file exists''"
| "errno_text ENOTDIR = ''not a directory''"
| "errno_text EISDIR = ''is a directory''"
| "errno_text EACCES = ''permission denied''"
| "errno_text EBADF = ''bad file descriptor''"
| "errno_text ErrClosed = ''file already closed''"

text \<open>The method \<open>Error()\<close>.\<close>

fun Error_text :: "error \<Rightarrow> string" where
  "Error_text (PathError op path e) = op @ '' '' @ path @ '': '' @ errno_text e"
| "Error_text ErrInvalid = ''invalid argument''"
| "Error_text (ErrorString m) = m"

text \<open>\<open>fmt.Errorf(pre + "%v", err)\<close>.\<close>

definition fmt_Errorf :: "string \<Rightarrow> error \<Rightarrow> error" where
  "fmt_Errorf pre err = ErrorString (pre @ Error_text err)"

fun IsExist :: "error option \<Rightarrow> bool" where
  "IsExist (Some (PathError op path e)) = (e = EEXIST)"
| "IsExist _ = False"

text \<open>Permission bits are written in octal in the source: \<open>oct 7 0 0\<close> is \<open>0700\<close>.\<close>

definition oct :: "int \<Rightarrow> int \<Rightarrow> int \<Rightarrow> int" where
  "oct a b c = a * 64 + b * 8 + c"

text \<open>
  A directory entry is a directory or a regular file, each with its mode, or a symbolic
  link whose target does not exist and cannot be created (the target's directory is
  missing): \<open>Dangling\<close>. Other symbolic links are outside the model.
\<close>

datatype node = Dir int | File int string | Dangling

text \<open>An \<open>os.File\<close> object; a \<open>*os.File\<close> is its index in the state's table, \<open>nil\<close> is \<open>None\<close>.\<close>

record os_file =
  f_key :: "string list"
  f_name :: string
  f_flag :: int
  f_off :: nat
  f_closed :: bool

text \<open>\<open>io.Writer\<close> values: \<open>os.Stderr\<close>, a \<open>*os.File\<close>, \<open>io.Discard\<close>, or an \<open>io.MultiWriter\<close>.\<close>

datatype sink = Stderr | FileSink "nat option" | Discard

datatype Writer = Single sink | Multi "sink list"

text \<open>A \<open>log.Logger\<close>: its fields \<open>out\<close>, \<open>prefix\<close> and \<open>flag\<close>.\<close>

record Logger =
  l_out :: Writer
  l_prefix :: string
  l_flag :: int

record clock =
  c_year :: nat
  c_month :: nat
  c_day :: nat
  c_hour :: nat
  c_min :: nat
  c_sec :: nat
  c_nsec :: nat

text \<open>
  The state: the package-level variables of \<open>jlog.go\<close> (\<open>dbg\<close>, \<open>warn\<close>, \<open>info\<close>, \<open>errorl\<close>,
  \<open>Debug\<close>), and the process's surroundings: environment variables, working directory,
  umask, the file system (a map from the list of a path's elements, from the root, to its
  entry), the entries the kernel refuses to create or open for writing (\<open>no_write\<close>,
  standing for access control), the \<open>os.File\<close> objects made so far, what standard error
  received, the clock (local and UTC) and what \<open>runtime.Caller\<close> reports inside
  \<open>log.Output\<close> for a call depth.
\<close>

record state =
  dbg :: "Logger option"
  warn :: "Logger option"
  info :: "Logger option"
  errorl :: "Logger option"
  Debug :: bool
  environ :: "string \<rightharpoonup> string"
  cwd :: string
  umask :: int
  fs :: "string list \<rightharpoonup> node"
  no_write :: "string list \<Rightarrow> bool"
  files :: "os_file list"
  stderr :: string
  now :: clock
  now_utc :: clock
  caller :: "nat \<Rightarrow> (string \<times> nat) option"

definition LookupEnv :: "state \<Rightarrow> string \<Rightarrow> string \<times> bool" where
  "LookupEnv s key = (case environ s key of None \<Rightarrow> ([], False) | Some v \<Rightarrow> (v, True))"

definition Getenv :: "state \<Rightarrow> string \<Rightarrow> string" where
  "Getenv s key = fst (LookupEnv s key)"

definition UserHomeDir :: "state \<Rightarrow> string \<times> error option" where
  "UserHomeDir s =
     (let v = Getenv s ''HOME''
      in if v \<noteq> [] then (v, None) else ([], Some (ErrorString ''$HOME is not defined'')))"

text \<open>The elements of a path: the non-empty pieces between separators.\<close>

fun segments :: "string \<Rightarrow> string \<Rightarrow> string list" where
  "segments acc [] = (if acc = [] then [] else [acc])"
| "segments acc (c # cs) =
     (if IsPathSeparator c then (if acc = [] then segments [] cs else acc # segments [] cs)
      else segments (acc @ [c]) cs)"

text \<open>
  The kernel resolves a relative name against the working directory. With no symbolic
  links to follow, resolving \<open>.\<close> and \<open>..\<close> is what \<open>Clean\<close> does.
\<close>

definition key_of :: "state \<Rightarrow> string \<Rightarrow> string list" where
  "key_of s name = segments [] (Clean (if IsAbs name then name else cwd s @ ''/'' @ name))"

definition node_at :: "(string list \<rightharpoonup> node) \<Rightarrow> string list \<Rightarrow> node option" where
  "node_at m k = (if k = [] then Some (Dir (oct 7 5 5)) else m k)"

text \<open>Walking down from entry \<open>k\<close> through the elements \<open>cs\<close>: every entry on the way is a directory.\<close>

fun walk :: "(string list \<rightharpoonup> node) \<Rightarrow> string list \<Rightarrow> string list \<Rightarrow> errno + node" where
  "walk m k [] = (case node_at m k of None \<Rightarrow> Inl ENOENT | Some n \<Rightarrow> Inr n)"
| "walk m k (c # cs) =
     (case node_at m k of
        Some (Dir md) \<Rightarrow> walk m (k @ [c]) cs
      | Some (File md d) \<Rightarrow> Inl ENOTDIR
      | Some Dangling \<Rightarrow> Inl ENOENT
      | None \<Rightarrow> Inl ENOENT)"

definition Lstat :: "state \<Rightarrow> string \<Rightarrow> errno + node" where
  "Lstat s name = (if name = [] then Inl ENOENT else walk (fs s) [] (key_of s name))"

definition Stat :: "state \<Rightarrow> string \<Rightarrow> errno + node" where
  "Stat s name = (case Lstat s name of Inr Dangling \<Rightarrow> Inl ENOENT | r \<Rightarrow> r)"

fun IsDir :: "node \<Rightarrow> bool" where
  "IsDir (Dir md) = True"
| "IsDir _ = False"

text \<open>The directory that is to hold entry \<open>k\<close>: \<open>None\<close> when it is there and is a directory.\<close>

definition parent_dir :: "(string list \<rightharpoonup> node) \<Rightarrow> string list \<Rightarrow> errno option" where
  "parent_dir m k =
     (case walk m [] (butlast k) of
        Inl e \<Rightarrow> Some e
      | Inr (Dir md) \<Rightarrow> None
      | Inr (File md d) \<Rightarrow> Some ENOTDIR
      | Inr Dangling \<Rightarrow> Some ENOENT)"

definition Mkdir :: "state \<Rightarrow> string \<Rightarrow> int \<Rightarrow> error option \<times> state" where
  "Mkdir s name perm =
     (let k = key_of s name;
          fail = (\<lambda>e. (Some (PathError ''mkdir'' name e), s))
      in if name = [] then fail ENOENT
         else if k = [] then fail EEXIST
         else case parent_dir (fs s) k of
                Some e \<Rightarrow> fail e
              | None \<Rightarrow>
                 (case fs s k of
                    Some n \<Rightarrow> fail EEXIST
                  | None \<Rightarrow>
                     if no_write s k then fail EACCES
                     else (None, s\<lparr>fs := (fs s)(k \<mapsto> Dir (perm AND NOT (umask s)))\<rparr>)))"

text \<open>
  \<open>os.MkdirAll\<close>. The parent is \<open>path[:i]\<close>, with \<open>i\<close> the index of the separator before
  the last element (0 when there is none).
\<close>

definition MkdirAll_parent :: "string \<Rightarrow> string" where
  "MkdirAll_parent path =
     rev (tl (dropWhile (\<lambda>c. \<not> IsPathSeparator c) (dropWhile IsPathSeparator (rev path))))"

function MkdirAll :: "state \<Rightarrow> string \<Rightarrow> int \<Rightarrow> error option \<times> state" where
  "MkdirAll s path perm =
     (case Stat s path of
        Inr n \<Rightarrow>
          (if IsDir n then (None, s) else (Some (PathError ''mkdir'' path ENOTDIR), s))
      | Inl e0 \<Rightarrow>
          (case (if length (MkdirAll_parent path) > 0
                 then MkdirAll s (MkdirAll_parent path) perm else (None, s)) of
             (Some err, s1) \<Rightarrow> (Some err, s1)
           | (None, s1) \<Rightarrow>
               (case Mkdir s1 path perm of
                  (Some err, s2) \<Rightarrow>
                    (case Lstat s2 path of
                       Inr (Dir md) \<Rightarrow> (None, s2)
                     | _ \<Rightarrow> (Some err, s2))
                | (None, s2) \<Rightarrow> (None, s2))))"
  by pat_completeness auto
termination
proof (relation "measure (\<lambda>(s, path, perm). length path)")
  show "wf (measure (\<lambda>(s, path, perm). length path))"
    by simp
next
  fix s :: state and path :: string and perm :: int and e0 :: errno
  let ?a = "dropWhile IsPathSeparator (rev path)"
  let ?b = "dropWhile (\<lambda>c. \<not> IsPathSeparator c) ?a"
  assume pos: "0 < length (MkdirAll_parent path)"
  have len: "length (MkdirAll_parent path) = length ?b - 1"
    by (simp add: MkdirAll_parent_def)
  have "length ?b \<le> length ?a"
    by (rule length_dropWhile_le)
  also have "length ?a \<le> length (rev path)"
    by (rule length_dropWhile_le)
  finally have "length ?b \<le> length path"
    by simp
  with pos len have "length (MkdirAll_parent path) < length path"
    by linarith
  then show "((s, MkdirAll_parent path, perm), (s, path, perm))
               \<in> measure (\<lambda>(s, path, perm). length path)"
    by simp
qed

declare MkdirAll.simps [simp del]


text \<open>The flags of \<open>os.OpenFile\<close>, with their values on Linux.\<close>

definition O_RDONLY :: int where "O_RDONLY = 0"
definition O_WRONLY :: int where "O_WRONLY = 1"
definition O_RDWR :: int where "O_RDWR = 2"
definition O_CREATE :: int where "O_CREATE = 64"
definition O_EXCL :: int where "O_EXCL = 128"
definition O_TRUNC :: int where "O_TRUNC = 512"
definition O_APPEND :: int where "O_APPEND = 1024"

definition has_flag :: "int \<Rightarrow> int \<Rightarrow> bool" where
  "has_flag flag b = (flag AND b \<noteq> 0)"

definition writable :: "int \<Rightarrow> bool" where
  "writable flag = has_flag flag (O_WRONLY OR O_RDWR)"

text \<open>
  What \<open>open(2)\<close> decides for entry \<open>k\<close>: an error, or the file system after the call
  (with the file created or truncated, if the flags say so).
\<close>

definition open_node ::
  "state \<Rightarrow> string list \<Rightarrow> int \<Rightarrow> int \<Rightarrow> errno + (string list \<rightharpoonup> node)" where
  "open_node s k flag perm =
     (case parent_dir (fs s) k of
        Some e \<Rightarrow> Inl e
      | None \<Rightarrow>
         (case node_at (fs s) k of
            None \<Rightarrow>
              if \<not> has_flag flag O_CREATE then Inl ENOENT
              else if no_write s k then Inl EACCES
              else Inr ((fs s)(k \<mapsto> File (perm AND NOT (umask s)) []))
          | Some (Dir md) \<Rightarrow>
              if writable flag \<or> has_flag flag O_CREATE then Inl EISDIR
              else Inr (fs s)
          | Some (File md d) \<Rightarrow>
              if has_flag flag O_CREATE \<and> has_flag flag O_EXCL then Inl EEXIST
              else if writable flag \<and> no_write s k then Inl EACCES
              else Inr (if has_flag flag O_TRUNC \<and> writable flag
                        then (fs s)(k \<mapsto> File md []) else fs s)
          | Some Dangling \<Rightarrow>
              if has_flag flag O_CREATE \<and> has_flag flag O_EXCL then Inl EEXIST
              else Inl ENOENT))"

text \<open>
  \<open>os.OpenFile\<close>: the error as a \<open>*PathError\<close>, or a new \<open>os.File\<close> object, whose
  pointer is returned.
\<close>

definition OpenFile :: "state \<Rightarrow> string \<Rightarrow> int \<Rightarrow> int \<Rightarrow> (nat option \<times> error option) \<times> state" where
  "OpenFile s name flag perm =
     (case (if name = [] then Inl ENOENT else open_node s (key_of s name) flag perm) of
        Inl e \<Rightarrow> ((None, Some (PathError ''open'' name e)), s)
      | Inr m \<Rightarrow>
          ((Some (length (files s)), None),
           s\<lparr>fs := m,
             files := files s @ [\<lparr>f_key = key_of s name, f_name = name, f_flag = flag,
                                  f_off = 0, f_closed = False\<rparr>]\<rparr>))"

text \<open>
  \<open>(*os.File).Write\<close>: on a \<open>nil\<close> receiver \<open>ErrInvalid\<close>, on a closed file an error; an
  append-mode file is written at its end, any other at its offset.
\<close>

definition File_Write :: "state \<Rightarrow> nat option \<Rightarrow> string \<Rightarrow> error option \<times> state" where
  "File_Write s f b =
     (case f of
        None \<Rightarrow> (Some ErrInvalid, s)
      | Some h \<Rightarrow>
          if length (files s) \<le> h then (Some ErrInvalid, s)
          else let fl = files s ! h
               in if f_closed fl then (Some (PathError ''write'' (f_name fl) ErrClosed), s)
                  else if \<not> writable (f_flag fl)
                       then (Some (PathError ''write'' (f_name fl) EBADF), s)
                  else case fs s (f_key fl) of
                         Some (File md d) \<Rightarrow>
                           (let off = (if has_flag (f_flag fl) O_APPEND then length d else f_off fl);
                                d' = take off (d @ replicate (off - length d) (CHR 0x00)) @ b
                                       @ drop (off + length b) d
                            in (None, s\<lparr>fs := (fs s)(f_key fl \<mapsto> File md d'),
                                        files := (files s)[h := fl\<lparr>f_off := off + length b\<rparr>]\<rparr>))
                       | _ \<Rightarrow> (Some (PathError ''write'' (f_name fl) EBADF), s))"

definition File_Close :: "state \<Rightarrow> nat option \<Rightarrow> error option \<times> state" where
  "File_Close s f =
     (case f of
        None \<Rightarrow> (Some ErrInvalid, s)
      | Some h \<Rightarrow>
          if length (files s) \<le> h then (Some ErrInvalid, s)
          else let fl = files s ! h
               in if f_closed fl then (Some (PathError ''close'' (f_name fl) ErrClosed), s)
                  else (None, s\<lparr>files := (files s)[h := fl\<lparr>f_closed := True\<rparr>]\<rparr>))"

subsection \<open>io: writers\<close>

fun sink_Write :: "state \<Rightarrow> sink \<Rightarrow> string \<Rightarrow> error option \<times> state" where
  "sink_Write s Stderr b = (None, s\<lparr>stderr := stderr s @ b\<rparr>)"
| "sink_Write s (FileSink f) b = File_Write s f b"
| "sink_Write s Discard b = (None, s)"

text \<open>\<open>multiWriter.Write\<close>: the writers in turn, stopping at the first error.\<close>

fun multi_Write :: "state \<Rightarrow> sink list \<Rightarrow> string \<Rightarrow> error option \<times> state" where
  "multi_Write s [] b = (None, s)"
| "multi_Write s (w # ws) b =
     (case sink_Write s w b of
        (Some err, s') \<Rightarrow> (Some err, s')
      | (None, s') \<Rightarrow> multi_Write s' ws b)"

fun Writer_Write :: "state \<Rightarrow> Writer \<Rightarrow> string \<Rightarrow> error option \<times> state" where
  "Writer_Write s (Single w) b = sink_Write s w b"
| "Writer_Write s (Multi ws) b = multi_Write s ws b"

fun sinks_of :: "Writer \<Rightarrow> sink list" where
  "sinks_of (Single w) = [w]"
| "sinks_of (Multi ws) = ws"

text \<open>\<open>io.MultiWriter\<close>: a multi-writer among the arguments is replaced by its writers.\<close>

definition MultiWriter :: "Writer list \<Rightarrow> Writer" where
  "MultiWriter writers = Multi (concat (map sinks_of writers))"


subsection \<open>log: loggers\<close>

definition Ldate :: int where "Ldate = 1"
definition Ltime :: int where "Ltime = 2"
definition Lmicroseconds :: int where "Lmicroseconds = 4"
definition Llongfile :: int where "Llongfile = 8"
definition Lshortfile :: int where "Lshortfile = 16"
definition LUTC :: int where "LUTC = 32"
definition Lmsgprefix :: int where "Lmsgprefix = 64"
definition LstdFlags :: int where "LstdFlags = Ldate OR Ltime"

text \<open>\<open>log.New\<close> returns a pointer to a new logger, never \<open>nil\<close>.\<close>

definition log_New :: "Writer \<Rightarrow> string \<Rightarrow> int \<Rightarrow> Logger option" where
  "log_New out pre flag = Some \<lparr>l_out = out, l_prefix = pre, l_flag = flag\<rparr>"

definition digit :: "nat \<Rightarrow> char" where
  "digit d = char_of (48 + d)"

text \<open>\<open>itoa\<close> of package log: decimal, zero-padded to width \<open>wid\<close>.\<close>

function itoa :: "nat \<Rightarrow> int \<Rightarrow> string" where
  "itoa i wid =
     (if i \<ge> 10 \<or> wid > 1 then itoa (i div 10) (wid - 1) @ [digit (i mod 10)]
      else [digit i])"
  by pat_completeness auto
termination
  by (relation "measure (\<lambda>(i, wid). i + nat wid)") auto

declare itoa.simps [simp del]

text \<open>The loop of \<open>formatHeader\<close> that cuts a file name after its last slash (not at index 0).\<close>

fun short_name :: "string \<Rightarrow> string" where
  "short_name [] = []"
| "short_name (c # cs) =
     (if CHR ''/'' \<in> set cs then rev (takeWhile (\<lambda>x. x \<noteq> CHR ''/'') (rev cs)) else c # cs)"

definition formatHeader :: "state \<Rightarrow> string \<Rightarrow> int \<Rightarrow> string \<Rightarrow> nat \<Rightarrow> string" where
  "formatHeader s pre flag file line =
     (let t = (if has_flag flag LUTC then now_utc s else now s)
      in (if \<not> has_flag flag Lmsgprefix then pre else [])
         @ (if has_flag flag (Ldate OR Ltime OR Lmicroseconds)
            then (if has_flag flag Ldate
                  then itoa (c_year t) 4 @ ''/'' @ itoa (c_month t) 2 @ ''/''
                       @ itoa (c_day t) 2 @ '' ''
                  else [])
                 @ (if has_flag flag (Ltime OR Lmicroseconds)
                    then itoa (c_hour t) 2 @ '':'' @ itoa (c_min t) 2 @ '':'' @ itoa (c_sec t) 2
                         @ (if has_flag flag Lmicroseconds
                            then ''.'' @ itoa (c_nsec t div 1000) 6 else [])
                         @ '' ''
                    else [])
            else [])
         @ (if has_flag flag (Lshortfile OR Llongfile)
            then (if has_flag flag Lshortfile then short_name file else file)
                 @ '':'' @ itoa line (- 1) @ '': ''
            else [])
         @ (if has_flag flag Lmsgprefix then pre else []))"

text \<open>
  The bytes one call of \<open>Output\<close> writes: the header, the message, and a newline unless
  the message ends with one.
\<close>

definition log_line :: "state \<Rightarrow> Logger \<Rightarrow> nat \<Rightarrow> string \<Rightarrow> string" where
  "log_line s l calldepth msg =
     (let loc = (if has_flag (l_flag l) (Lshortfile OR Llongfile)
                 then (case caller s calldepth of
                         Some fl \<Rightarrow> fl
                       | None \<Rightarrow> (''???'', 0))
                 else ([], 0));
          buf = formatHeader s (l_prefix l) (l_flag l) (fst loc) (snd loc) @ msg
      in if buf = [] \<or> last buf \<noteq> CHR 0x0A then buf @ [CHR 0x0A] else buf)"

text \<open>
  What a call does: it returns, or it panics. A method called through a \<open>nil\<close>
  \<open>*log.Logger\<close> dereferences it and panics.
\<close>

datatype 'a outcome = Panic | Done 'a

definition Logger_Output ::
  "state \<Rightarrow> Logger option \<Rightarrow> nat \<Rightarrow> string \<Rightarrow> (error option \<times> state) outcome" where
  "Logger_Output s lp calldepth msg =
     (case lp of
        None \<Rightarrow> Panic
      | Some l \<Rightarrow>
          if l_out l = Single Discard then Done (None, s)
          else Done (Writer_Write s (l_out l) (log_line s l calldepth msg)))"

section \<open>Package jlog\<close>

definition fileLog :: string where "fileLog = ''jasmd.log''"
definition clientsLogFile :: string where "clientsLogFile = ''jasmd_clients.log''"
definition jasmDir :: string where "jasmDir = ''jasm''"
definition xdgStateDefault :: string where "xdgStateDefault = ''.local/state''"
definition xdgStateEnv :: string where "xdgStateEnv = ''XDG_STATE_HOME''"

text \<open>\<open>func CloseLog(f *os.File)\<close>: the error of \<open>Close\<close> is dropped.\<close>

definition CloseLog :: "state \<Rightarrow> nat option \<Rightarrow> state" where
  "CloseLog s f = snd (File_Close s f)"

text \<open>
  \<open>func setStateDir() (string, error)\<close>. The inner case is the \<open>if !ok\<close> block: it leaves
  through its \<open>return\<close> (\<open>Inl\<close>) or goes on with \<open>stateDir\<close> set (\<open>Inr\<close>).
\<close>

definition setStateDir :: "state \<Rightarrow> (string \<times> error option) \<times> state" where
  "setStateDir s =
     (case LookupEnv s xdgStateEnv of
        (stateDir0, ok) \<Rightarrow>
          (case (if \<not> ok
                 then (case UserHomeDir s of
                         (homeDir, Some err) \<Rightarrow> Inl err
                       | (homeDir, None) \<Rightarrow> Inr (Join [homeDir, xdgStateDefault]))
                 else Inr stateDir0) of
             Inl err \<Rightarrow> (([], Some (fmt_Errorf [] err)), s)
           | Inr stateDir \<Rightarrow>
               (let jasmStateDir = Join [stateDir, jasmDir]
                in case MkdirAll s jasmStateDir (oct 7 0 0) of
                     (None, s') \<Rightarrow> ((jasmStateDir, None), s')
                   | (Some err, s') \<Rightarrow>
                       if \<not> IsExist (Some err)
                       then (([], Some (fmt_Errorf [] err)), s')
                       else ((jasmStateDir, None), s'))))"

definition InitLog :: "state \<Rightarrow> (nat option \<times> error option) \<times> state" where
  "InitLog s =
     (case setStateDir s of
        ((stateDir, Some err), s1) \<Rightarrow> ((None, Some (fmt_Errorf [] err)), s1)
      | ((stateDir, None), s1) \<Rightarrow>
          (let f = Join [stateDir, fileLog]
           in case OpenFile s1 f (O_APPEND OR O_CREATE OR O_WRONLY) (oct 6 6 6) of
                ((logFile, Some err), s2) \<Rightarrow> ((None, Some (fmt_Errorf ''open logFile: '' err)), s2)
              | ((logFile, None), s2) \<Rightarrow>
                  (let mw = MultiWriter [Single Stderr, Single (FileSink logFile)]
                   in ((logFile, None),
                       s2\<lparr>info := log_New mw ''[jasmd] '' 0,
                          warn := log_New mw ''WARNING: '' (Ldate OR Ltime OR Lshortfile),
                          dbg := log_New mw ''DEBUG: '' (Ldate OR Ltime OR Lshortfile),
                          errorl := log_New mw ''ERROR: '' (Ldate OR Ltime OR Lshortfile)\<rparr>))))"

definition InitClientLog :: "state \<Rightarrow> (nat option \<times> error option) \<times> state" where
  "InitClientLog s =
     (case setStateDir s of
        ((stateDir, Some err), s1) \<Rightarrow> ((None, Some (fmt_Errorf [] err)), s1)
      | ((stateDir, None), s1) \<Rightarrow>
          (let f = Join [stateDir, clientsLogFile]
           in case OpenFile s1 f (O_APPEND OR O_CREATE OR O_WRONLY) (oct 6 6 6) of
                ((logFile, Some err), s2) \<Rightarrow>
                  ((None, Some (fmt_Errorf ''open nsmclients logFile: '' err)), s2)
              | ((logFile, None), s2) \<Rightarrow> ((logFile, None), s2)))"

definition ErrorLogger :: "state \<Rightarrow> Logger option" where
  "ErrorLogger s =
     (if errorl s = None then log_New (Single Discard) [] LstdFlags else errorl s)"

text \<open>
  The four logging functions take \<open>fmt.Sprintf\<close> as their first argument: the variadic
  \<open>args ...interface{}\<close> are a list of values of any type \<open>'a\<close>, and what \<open>Sprintf\<close> makes
  of a template and such a list is left open. The error of \<open>Output\<close> is dropped.
\<close>

definition Debugf :: "(string \<Rightarrow> 'a list \<Rightarrow> string) \<Rightarrow> state \<Rightarrow> string \<Rightarrow> 'a list \<Rightarrow> state outcome" where
  "Debugf Sprintf s message args =
     (if dbg s = None \<or> \<not> Debug s then Done s
      else let message' = (if length args > 0 then Sprintf message args else message)
           in case Logger_Output s (dbg s) 2 message' of
                Panic \<Rightarrow> Panic
              | Done (err, s') \<Rightarrow> Done s')"

definition Infof :: "(string \<Rightarrow> 'a list \<Rightarrow> string) \<Rightarrow> state \<Rightarrow> string \<Rightarrow> 'a list \<Rightarrow> state outcome" where
  "Infof Sprintf s msg args =
     (if info s = None then Done s
      else let msg' = (if length args > 0 then Sprintf msg args else msg)
           in case Logger_Output s (info s) 1 msg' of
                Panic \<Rightarrow> Panic
              | Done (err, s') \<Rightarrow> Done s')"

definition Warnf :: "(string \<Rightarrow> 'a list \<Rightarrow> string) \<Rightarrow> state \<Rightarrow> string \<Rightarrow> 'a list \<Rightarrow> state outcome" where
  "Warnf Sprintf s message args =
     (if warn s = None then Done s
      else let message' = (if length args > 0 then Sprintf message args else message)
           in case Logger_Output s (warn s) 2 message' of
                Panic \<Rightarrow> Panic
              | Done (err, s') \<Rightarrow> Done s')"

definition Errorf :: "(string \<Rightarrow> 'a list \<Rightarrow> string) \<Rightarrow> state \<Rightarrow> string \<Rightarrow> 'a list \<Rightarrow> state outcome" where
  "Errorf Sprintf s message args =
     (if errorl s = None then Done s
      else let message' = (if length args > 0 then Sprintf message args else message)
           in case Logger_Output s (errorl s) 2 message' of
                Panic \<Rightarrow> Panic
              | Done (err, s') \<Rightarrow> Done s')"


section \<open>Notions used in the statements\<close>

text \<open>An ordinary path element: not empty, without a separator, neither \<open>.\<close> nor \<open>..\<close>.\<close>

definition plain_elem :: "string \<Rightarrow> bool" where
  "plain_elem e = (e \<noteq> [] \<and> CHR ''/'' \<notin> set e \<and> e \<noteq> ''.'' \<and> e \<noteq> ''..'')"

text \<open>The last element of path \<open>p\<close> is \<open>e\<close>.\<close>

definition ends_with_elem :: "string \<Rightarrow> string \<Rightarrow> bool" where
  "ends_with_elem e p = (p = e \<or> suffix (CHR ''/'' # e) p)"

text \<open>
  What the loop of \<open>Clean\<close> keeps true of its buffer: on a rooted path it starts with the
  separator and \<open>dotdot\<close> stays inside it; on any other path it does not start with one.
\<close>

definition clean_inv :: "bool \<Rightarrow> string \<times> nat \<Rightarrow> bool" where
  "clean_inv rooted st =
     (if rooted then 1 \<le> snd st \<and> snd st \<le> length (fst st) \<and> hd (fst st) = CHR ''/''
      else fst st = [] \<or> hd (fst st) \<noteq> CHR ''/'')"

text \<open>The four logger variables and the toggle of two states agree.\<close>

definition same_loggers :: "state \<Rightarrow> state \<Rightarrow> bool" where
  "same_loggers s t =
     (dbg t = dbg s \<and> warn t = warn s \<and> info t = info s \<and> errorl t = errorl s
      \<and> Debug t = Debug s)"

text \<open>The regular file an \<open>os.File\<close> object stands for holds \<open>d\<close>.\<close>

definition file_content :: "state \<Rightarrow> nat \<Rightarrow> string option" where
  "file_content s h =
     (if h < length (files s)
      then (case fs s (f_key (files s ! h)) of Some (File md d) \<Rightarrow> Some d | _ \<Rightarrow> None)
      else None)"

text \<open>
  The \<open>os.File\<close> object \<open>h\<close> is open, in append mode, writable, and stands for a regular
  file: what \<open>InitLog\<close> hands to its loggers, until somebody closes it.
\<close>

definition log_ready :: "state \<Rightarrow> nat \<Rightarrow> bool" where
  "log_ready s h =
     (h < length (files s) \<and> \<not> f_closed (files s ! h) \<and> writable (f_flag (files s ! h))
      \<and> has_flag (f_flag (files s ! h)) O_APPEND \<and> file_content s h \<noteq> None)"

text \<open>Between \<open>s\<close> and \<open>t\<close> the bytes \<open>b\<close> reached standard error and the file of \<open>h\<close>.\<close>

definition emitted :: "state \<Rightarrow> state \<Rightarrow> nat \<Rightarrow> string \<Rightarrow> bool" where
  "emitted s t h b =
     (stderr t = stderr s @ b \<and>
      file_content t h = map_option (\<lambda>d. d @ b) (file_content s h))"

text \<open>What standard error holds after a call, if the call returned.\<close>

fun stderr_after :: "state outcome \<Rightarrow> string" where
  "stderr_after (Done t) = stderr t"
| "stderr_after Panic = []"

text \<open>The message a logging function hands to \<open>Output\<close>.\<close>

definition formatted :: "(string \<Rightarrow> 'a list \<Rightarrow> string) \<Rightarrow> string \<Rightarrow> 'a list \<Rightarrow> string" where
  "formatted Sprintf message args = (if args = [] then message else Sprintf message args)"

text \<open>The pieces of a log line: the date, the time, the place of the call, the final newline.\<close>

definition date_stamp :: "clock \<Rightarrow> string" where
  "date_stamp c = itoa (c_year c) 4 @ ''/'' @ itoa (c_month c) 2 @ ''/'' @ itoa (c_day c) 2"

definition time_stamp :: "clock \<Rightarrow> string" where
  "time_stamp c = itoa (c_hour c) 2 @ '':'' @ itoa (c_min c) 2 @ '':'' @ itoa (c_sec c) 2"

definition call_site :: "state \<Rightarrow> nat \<Rightarrow> string" where
  "call_site s calldepth =
     (case (case caller s calldepth of Some fl \<Rightarrow> fl | None \<Rightarrow> (''???'', 0)) of
        (file, line) \<Rightarrow> short_name file @ '':'' @ itoa line (- 1))"

definition ensure_newline :: "string \<Rightarrow> string" where
  "ensure_newline buf = (if buf = [] \<or> last buf \<noteq> CHR 0x0A then buf @ [CHR 0x0A] else buf)"

text \<open>A logger as \<open>InitLog\<close> makes it: on the combined writer of standard error and \<open>f\<close>.\<close>

definition bound_logger :: "nat option \<Rightarrow> string \<Rightarrow> int \<Rightarrow> Logger" where
  "bound_logger f pre flag = \<lparr>l_out = Multi [Stderr, FileSink f], l_prefix = pre, l_flag = flag\<rparr>"

subsection \<open>The algorithm of setStateDir in the words of the specification\<close>

text \<open>
  Read the environment variable \<open>XDG_STATE_HOME\<close> as the base state directory; if it is
  absent, use the user's home directory joined with \<open>.local/state\<close>.
\<close>

definition spec_base :: "state \<Rightarrow> error + string" where
  "spec_base s =
     (case environ s ''XDG_STATE_HOME'' of
        Some v \<Rightarrow> Inr v
      | None \<Rightarrow>
          (case UserHomeDir s of
             (home, None) \<Rightarrow> Inr (Join [home, ''.local/state''])
           | (home, Some err) \<Rightarrow> Inl err))"

text \<open>
  Create the full path (with intermediate directories) with permission mode \<open>0700\<close>,
  treating "already exists" as success and any other creation failure as an error.
\<close>

definition spec_create :: "state \<Rightarrow> string \<Rightarrow> error option \<times> state" where
  "spec_create s path =
     (case MkdirAll s path (oct 7 0 0) of
        (Some (PathError op p EEXIST), s') \<Rightarrow> (None, s')
      | r \<Rightarrow> r)"

text \<open>Join the base with the application subdirectory \<open>jasm\<close>, and create it.\<close>

definition setStateDir_spec :: "state \<Rightarrow> (string \<times> error option) \<times> state" where
  "setStateDir_spec s =
     (case spec_base s of
        Inl err \<Rightarrow> (([], Some (ErrorString (Error_text err))), s)
      | Inr base \<Rightarrow>
          (case spec_create s (Join [base, ''jasm'']) of
             (None, s') \<Rightarrow> ((Join [base, ''jasm''], None), s')
           | (Some err, s') \<Rightarrow> (([], Some (ErrorString (Error_text err))), s')))"

subsection \<open>Example states\<close>

text \<open>
  A stand-in for \<open>fmt.Sprintf\<close> in the examples: it knows the verb \<open>%s\<close> and string
  arguments only, and puts the arguments in the places of the verbs, in order.
\<close>

fun Sprintf_s :: "string \<Rightarrow> string list \<Rightarrow> string" where
  "Sprintf_s [] args = []"
| "Sprintf_s (c # cs) [] = c # cs"
| "Sprintf_s [c] (a # args) = [c]"
| "Sprintf_s (c # c2 # cs) (a # args) =
     (if c = CHR ''%'' \<and> c2 = CHR ''s'' then a @ Sprintf_s cs args
      else c # Sprintf_s (c2 # cs) (a # args))"

definition clock0 :: clock where
  "clock0 = \<lparr>c_year = 2024, c_month = 3, c_day = 9, c_hour = 7, c_min = 5, c_sec = 1,
             c_nsec = 0\<rparr>"

text \<open>
  A process at its start: the package variables hold their zero values, \<open>HOME\<close> is
  \<open>/home/u\<close>, the override is unset, the umask is \<open>022\<close> and \<open>/home/u\<close> exists.
\<close>

definition fresh :: state where
  "fresh = \<lparr>dbg = None, warn = None, info = None, errorl = None, Debug = False,
            environ = [''HOME'' \<mapsto> ''/home/u''], cwd = ''/'', umask = oct 0 2 2,
            fs = [[''home''] \<mapsto> Dir (oct 7 5 5), [''home'', ''u''] \<mapsto> Dir (oct 7 5 5)],
            no_write = (\<lambda>k. False), files = [], stderr = [],
            now = clock0, now_utc = clock0,
            caller = (\<lambda>depth. Some (''/src/app/main.go'', 42))\<rparr>"

text \<open>The same process with the override set to the empty string.\<close>

definition fresh_xdg_empty :: state where
  "fresh_xdg_empty = fresh\<lparr>environ := [''HOME'' \<mapsto> ''/home/u'', ''XDG_STATE_HOME'' \<mapsto> []]\<rparr>"

text \<open>The process after its first, successful \<open>InitLog\<close>, with the debug toggle switched on.\<close>

definition running :: state where
  "running = (snd (InitLog fresh))\<lparr>Debug := True\<rparr>"

text \<open>Later the log file can no longer be opened for writing (permission denied).\<close>

definition running_denied :: state where
  "running_denied = running\<lparr>no_write := (\<lambda>k. k = [''home'', ''u'', ''.local'', ''state'', ''jasm'',
                                                  ''jasmd.log''])\<rparr>"

text \<open>
  A process whose \<open>/home/u/.local/state/jasm\<close> is a symbolic link to nowhere.
\<close>

definition fresh_dangling :: state where
  "fresh_dangling =
     fresh\<lparr>fs := [[''home''] \<mapsto> Dir (oct 7 5 5), [''home'', ''u''] \<mapsto> Dir (oct 7 5 5),
                  [''home'', ''u'', ''.local''] \<mapsto> Dir (oct 7 0 0),
                  [''home'', ''u'', ''.local'', ''state''] \<mapsto> Dir (oct 7 0 0),
                  [''home'', ''u'', ''.local'', ''state'', ''jasm''] \<mapsto> Dangling]\<rparr>"


text \<open>A process at its start without \<open>HOME\<close> and without the override.\<close>

definition fresh_no_home :: state where
  "fresh_no_home = fresh\<lparr>environ := Map.empty\<rparr>"

section \<open>Facts about the environment\<close>

subsection \<open>Clean and Join\<close>

lemma at_boundary_append: "at_boundary (xs @ CHR ''/'' # ys) = at_boundary xs"
  by (cases xs) (simp_all add: IsPathSeparator_def)

lemma dropWhile_elem_append:
  "dropWhile (\<lambda>x. \<not> IsPathSeparator x) (xs @ CHR ''/'' # ys)
     = dropWhile (\<lambda>x. \<not> IsPathSeparator x) xs @ CHR ''/'' # ys"
  by (induction xs) (simp_all add: IsPathSeparator_def)

lemma takeWhile_elem_append:
  "takeWhile (\<lambda>x. \<not> IsPathSeparator x) (xs @ CHR ''/'' # ys)
     = takeWhile (\<lambda>x. \<not> IsPathSeparator x) xs"
  by (induction xs) (simp_all add: IsPathSeparator_def)



lemma clean_loop_sep:
  "IsPathSeparator c \<Longrightarrow> clean_loop rooted (c # cs) (out, dotdot) = clean_loop rooted cs (out, dotdot)"
  by (subst clean_loop.simps(2)) (simp only: if_True)

lemma clean_loop_dot:
  "\<not> IsPathSeparator c \<Longrightarrow> dot_element (c # cs) \<Longrightarrow>
   clean_loop rooted (c # cs) (out, dotdot) = clean_loop rooted cs (out, dotdot)"
  by (subst clean_loop.simps(2)) (simp only: if_True if_False)

lemma clean_loop_dotdot:
  "\<not> IsPathSeparator c \<Longrightarrow> \<not> dot_element (c # cs) \<Longrightarrow> dotdot_element (c # cs) \<Longrightarrow>
   clean_loop rooted (c # cs) (out, dotdot) =
     clean_loop rooted (tl cs)
       (if length out > dotdot then (unwind out dotdot, dotdot)
        else if \<not> rooted
             then (let out1 = (if length out > 0 then out @ ''/'' else out) @ ''..''
                   in (out1, length out1))
             else (out, dotdot))"
  by (subst clean_loop.simps(2)) (simp only: if_True if_False)

lemma clean_loop_elem:
  "\<not> IsPathSeparator c \<Longrightarrow> \<not> dot_element (c # cs) \<Longrightarrow> \<not> dotdot_element (c # cs) \<Longrightarrow>
   clean_loop rooted (c # cs) (out, dotdot) =
     clean_loop rooted (dropWhile (\<lambda>x. \<not> IsPathSeparator x) cs)
       ((if (rooted \<and> length out \<noteq> 1) \<or> (\<not> rooted \<and> length out \<noteq> 0)
         then out @ ''/'' else out) @ c # takeWhile (\<lambda>x. \<not> IsPathSeparator x) cs,
        dotdot)"
  by (subst clean_loop.simps(2)) (simp only: if_True if_False)

lemma dot_element_append: "dot_element (c # cs @ CHR ''/'' # ys) = dot_element (c # cs)"
  by (simp add: at_boundary_append)

lemma dotdot_element_append: "dotdot_element (c # cs @ CHR ''/'' # ys) = dotdot_element (c # cs)"
  by (cases cs) (simp_all add: at_boundary_append IsPathSeparator_def)

lemma clean_loop_split:
  "clean_loop rooted (xs @ CHR ''/'' # ys) st = clean_loop rooted ys (clean_loop rooted xs st)"
proof (induction rooted xs st rule: clean_loop.induct)
  case (1 rooted out dotdot)
  show ?case
    by (simp add: IsPathSeparator_def)
next
  case (2 rooted c cs out dotdot)
  consider (sep) "IsPathSeparator c"
    | (dot) "\<not> IsPathSeparator c" "dot_element (c # cs)"
    | (dotdot) "\<not> IsPathSeparator c" "\<not> dot_element (c # cs)" "dotdot_element (c # cs)"
    | (elem) "\<not> IsPathSeparator c" "\<not> dot_element (c # cs)" "\<not> dotdot_element (c # cs)"
    by blast
  then show ?case
  proof cases
    case sep
    have l: "clean_loop rooted ((c # cs) @ CHR ''/'' # ys) (out, dotdot) =
             clean_loop rooted (cs @ CHR ''/'' # ys) (out, dotdot)"
      using sep by (simp only: append_Cons clean_loop_sep)
    have r: "clean_loop rooted (c # cs) (out, dotdot) = clean_loop rooted cs (out, dotdot)"
      using sep by (rule clean_loop_sep)
    show ?thesis
      unfolding l r using "2.IH"(1) sep by blast
  next
    case dot
    have l: "clean_loop rooted ((c # cs) @ CHR ''/'' # ys) (out, dotdot) =
             clean_loop rooted (cs @ CHR ''/'' # ys) (out, dotdot)"
    proof -
      have "dot_element (c # cs @ CHR ''/'' # ys)"
        unfolding dot_element_append by (fact dot(2))
      from clean_loop_dot [OF dot(1) this] show ?thesis
        by (simp only: append_Cons)
    qed
    have r: "clean_loop rooted (c # cs) (out, dotdot) = clean_loop rooted cs (out, dotdot)"
      using dot by (rule clean_loop_dot)
    show ?thesis
      unfolding l r using "2.IH"(2) dot by blast
  next
    case dotdot
    then have ne: "cs \<noteq> []"
      by (cases cs) simp_all
    have tl: "tl (cs @ CHR ''/'' # ys) = tl cs @ CHR ''/'' # ys"
      using ne by simp
    let ?st = "(if length out > dotdot then (unwind out dotdot, dotdot)
              else if \<not> rooted
                   then (let out1 = (if length out > 0 then out @ ''/'' else out) @ ''..''
                         in (out1, length out1))
                   else (out, dotdot))"
    have l: "clean_loop rooted ((c # cs) @ CHR ''/'' # ys) (out, dotdot) =
          clean_loop rooted (tl cs @ CHR ''/'' # ys) ?st"
    proof -
      have a: "\<not> dot_element (c # cs @ CHR ''/'' # ys)"
        unfolding dot_element_append by (fact dotdot(2))
      have b: "dotdot_element (c # cs @ CHR ''/'' # ys)"
        unfolding dotdot_element_append by (fact dotdot(3))
      from clean_loop_dotdot [OF dotdot(1) a b] show ?thesis
        by (simp only: append_Cons tl)
    qed
    have r: "clean_loop rooted (c # cs) (out, dotdot) = clean_loop rooted (tl cs) ?st"
      using dotdot by (rule clean_loop_dotdot)
    show ?thesis
      unfolding l r using "2.IH"(3) dotdot by blast
  next
    case elem
    let ?st = "((if (rooted \<and> length out \<noteq> 1) \<or> (\<not> rooted \<and> length out \<noteq> 0)
         then out @ ''/'' else out) @ c # takeWhile (\<lambda>x. \<not> IsPathSeparator x) cs,
        dotdot)"
    have l: "clean_loop rooted ((c # cs) @ CHR ''/'' # ys) (out, dotdot) =
        clean_loop rooted (dropWhile (\<lambda>x. \<not> IsPathSeparator x) cs @ CHR ''/'' # ys) ?st"
    proof -
      have a: "\<not> dot_element (c # cs @ CHR ''/'' # ys)"
        unfolding dot_element_append by (fact elem(2))
      have b: "\<not> dotdot_element (c # cs @ CHR ''/'' # ys)"
        unfolding dotdot_element_append by (fact elem(3))
      from clean_loop_elem [OF elem(1) a b] show ?thesis
        by (simp only: append_Cons dropWhile_elem_append takeWhile_elem_append)
    qed
    have r: "clean_loop rooted (c # cs) (out, dotdot) =
             clean_loop rooted (dropWhile (\<lambda>x. \<not> IsPathSeparator x) cs) ?st"
      using elem by (rule clean_loop_elem)
    show ?thesis
      unfolding l r using "2.IH"(4) elem by blast
  qed
qed

lemma clean_loop_plain:
  assumes "plain_elem e"
  shows "clean_loop rooted e (out, dotdot) =
           ((if (rooted \<and> length out \<noteq> 1) \<or> (\<not> rooted \<and> length out \<noteq> 0)
             then out @ ''/'' else out) @ e, dotdot)"
proof -
  from assms obtain c cs where e: "e = c # cs"
    by (cases e) (auto simp: plain_elem_def)
  from assms have nosep: "\<forall>x \<in> set (c # cs). \<not> IsPathSeparator x"
    by (auto simp: plain_elem_def e IsPathSeparator_def)
  then have tw: "takeWhile (\<lambda>x. \<not> IsPathSeparator x) cs = cs"
    and dw: "dropWhile (\<lambda>x. \<not> IsPathSeparator x) cs = []"
    by auto
  from nosep have c: "\<not> IsPathSeparator c"
    by simp
  from assms nosep have n1: "\<not> dot_element (c # cs)"
    by (cases cs) (auto simp: plain_elem_def e)
  from assms nosep have n2: "\<not> dotdot_element (c # cs)"
    by (cases cs; cases "tl cs") (auto simp: plain_elem_def e)
  show ?thesis
    unfolding e clean_loop_elem [OF c n1 n2] tw dw by simp
qed


lemma unwind_prefix: "prefix (unwind out dotdot) out"
proof (induction out dotdot rule: unwind.induct)
  case (1 out dotdot)
  show ?case
  proof (cases "out = []")
    case True
    then show ?thesis
      by (subst unwind.simps) simp
  next
    case False
    have bl: "prefix (butlast out) out"
      by (metis append_butlast_last_id False prefixI)
    show ?thesis
    proof (cases "length (butlast out) > dotdot \<and> \<not> IsPathSeparator (last out)")
      case True
      with False "1.IH" have "prefix (unwind (butlast out) dotdot) (butlast out)"
        by blast
      with bl have "prefix (unwind (butlast out) dotdot) out"
        by (rule prefix_order.trans [rotated])
      with True False show ?thesis
        by (simp add: unwind.simps [of out dotdot])
    next
      case F2: False
      with False bl show ?thesis
        by (auto simp add: unwind.simps [of out dotdot])
    qed
  qed
qed

lemma unwind_length: "dotdot < length out \<Longrightarrow> dotdot \<le> length (unwind out dotdot)"
proof (induction out dotdot rule: unwind.induct)
  case (1 out dotdot)
  from "1.prems" have ne: "out \<noteq> []"
    by auto
  show ?case
  proof (cases "length (butlast out) > dotdot \<and> \<not> IsPathSeparator (last out)")
    case True
    with ne "1.IH" have "dotdot \<le> length (unwind (butlast out) dotdot)"
      by blast
    with True ne show ?thesis
      by (simp add: unwind.simps [of out dotdot])
  next
    case False
    with ne "1.prems" show ?thesis
      by (auto simp add: unwind.simps [of out dotdot])
  qed
qed

lemma prefix_hd: "prefix xs ys \<Longrightarrow> xs \<noteq> [] \<Longrightarrow> hd xs = hd ys"
  by (auto simp: prefix_def)

lemma clean_inv_dotdot:
  assumes "clean_inv rooted (out, dotdot)"
  shows "clean_inv rooted
           (if length out > dotdot then (unwind out dotdot, dotdot)
            else if \<not> rooted
                 then (let out1 = (if length out > 0 then out @ ''/'' else out) @ ''..''
                       in (out1, length out1))
                 else (out, dotdot))"
proof (cases "length out > dotdot")
  case True
  have p: "prefix (unwind out dotdot) out"
    by (rule unwind_prefix)
  have l: "dotdot \<le> length (unwind out dotdot)"
    using True by (rule unwind_length)
  show ?thesis
  proof (cases rooted)
    case True
    with assms l have "unwind out dotdot \<noteq> []"
      by (auto simp: clean_inv_def)
    with p have "hd (unwind out dotdot) = hd out"
      by (rule prefix_hd)
    with assms l True \<open>length out > dotdot\<close> show ?thesis
      by (simp add: clean_inv_def)
  next
    case False
    have "unwind out dotdot = [] \<or> hd (unwind out dotdot) = hd out"
      using p prefix_hd by blast
    moreover from p have "unwind out dotdot \<noteq> [] \<Longrightarrow> out \<noteq> []"
      by auto
    ultimately show ?thesis
      using assms False \<open>length out > dotdot\<close> by (auto simp: clean_inv_def)
  qed
next
  case False
  with assms show ?thesis
    by (cases out) (auto simp: clean_inv_def Let_def)
qed

lemma clean_inv_elem:
  assumes "clean_inv rooted (out, dotdot)" and "\<not> IsPathSeparator c"
  shows "clean_inv rooted
           ((if (rooted \<and> length out \<noteq> 1) \<or> (\<not> rooted \<and> length out \<noteq> 0)
             then out @ ''/'' else out) @ c # rest, dotdot)"
  using assms by (cases out) (auto simp: clean_inv_def IsPathSeparator_def)

lemma clean_loop_inv:
  "clean_inv rooted st \<Longrightarrow> clean_inv rooted (clean_loop rooted xs st)"
proof (induction rooted xs st rule: clean_loop.induct)
  case (1 rooted out dotdot)
  then show ?case
    by simp
next
  case (2 rooted c cs out dotdot)
  consider (sep) "IsPathSeparator c"
    | (dot) "\<not> IsPathSeparator c" "dot_element (c # cs)"
    | (dotdot) "\<not> IsPathSeparator c" "\<not> dot_element (c # cs)" "dotdot_element (c # cs)"
    | (elem) "\<not> IsPathSeparator c" "\<not> dot_element (c # cs)" "\<not> dotdot_element (c # cs)"
    by blast
  then show ?case
  proof cases
    case sep
    show ?thesis
      unfolding clean_loop_sep [OF sep] using "2.IH"(1) sep "2.prems" by blast
  next
    case dot
    show ?thesis
      unfolding clean_loop_dot [OF dot] using "2.IH"(2) dot "2.prems" by blast
  next
    case dotdot
    show ?thesis
      unfolding clean_loop_dotdot [OF dotdot]
      using "2.IH"(3) dotdot clean_inv_dotdot [OF "2.prems"] by blast
  next
    case elem
    show ?thesis
      unfolding clean_loop_elem [OF elem]
      using "2.IH"(4) elem clean_inv_elem [OF "2.prems" elem(1)] by blast
  qed
qed

lemma IsAbs_Clean: "IsAbs (Clean path) = IsAbs path"
proof (cases path)
  case Nil
  then show ?thesis
    by (simp add: Clean_def IsAbs_def)
next
  case (Cons c cs)
  show ?thesis
  proof (cases "IsPathSeparator c")
    case True
    have "clean_inv True (''/'', 1)"
      by (simp add: clean_inv_def)
    then have "clean_inv True (clean_loop True cs (''/'', 1))"
      by (rule clean_loop_inv)
    then have "fst (clean_loop True cs (''/'', 1)) \<noteq> [] \<and>
               hd (fst (clean_loop True cs (''/'', 1))) = CHR ''/''"
      by (auto simp: clean_inv_def)
    with True Cons show ?thesis
      by (cases "fst (clean_loop True cs (''/'', 1))")
         (auto simp: Clean_def IsAbs_def IsPathSeparator_def Let_def)
  next
    case False
    have "clean_inv False ([], 0)"
      by (simp add: clean_inv_def)
    then have "clean_inv False (clean_loop False (c # cs) ([], 0))"
      by (rule clean_loop_inv)
    then have "fst (clean_loop False (c # cs) ([], 0)) = [] \<or>
               hd (fst (clean_loop False (c # cs) ([], 0))) \<noteq> CHR ''/''"
      by (auto simp: clean_inv_def)
    with False Cons show ?thesis
      by (cases "fst (clean_loop False (c # cs) ([], 0))")
         (auto simp: Clean_def IsAbs_def IsPathSeparator_def Let_def simp del: clean_loop.simps)
  qed
qed

lemma Clean_last_elem:
  assumes e: "plain_elem e" and d: "d \<noteq> []"
  shows "Clean (d @ CHR ''/'' # e) = e \<or> suffix (CHR ''/'' # e) (Clean (d @ CHR ''/'' # e))"
proof -
  from d obtain c cs where dc: "d = c # cs"
    by (cases d) auto
  from e have ene: "e \<noteq> []"
    by (simp add: plain_elem_def)
  show ?thesis
  proof (cases "IsPathSeparator c")
    case True
    obtain o1 d1 where st: "clean_loop True cs (''/'', 1) = (o1, d1)"
      by (cases "clean_loop True cs (''/'', 1)")
    have "clean_inv True (''/'', 1)"
      by (simp add: clean_inv_def)
    then have "clean_inv True (clean_loop True cs (''/'', 1))"
      by (rule clean_loop_inv)
    with st have o1: "o1 \<noteq> []" "hd o1 = CHR ''/''"
      by (auto simp: clean_inv_def)
    have res: "clean_loop True (cs @ CHR ''/'' # e) (''/'', 1) =
               ((if length o1 \<noteq> 1 then o1 @ ''/'' else o1) @ e, d1)"
      unfolding clean_loop_split st clean_loop_plain [OF e] by simp
    have cl: "Clean (d @ CHR ''/'' # e) = (if length o1 \<noteq> 1 then o1 @ ''/'' else o1) @ e"
      using True ene res by (simp add: Clean_def dc Let_def)
    show ?thesis
    proof (cases "length o1 = 1")
      case True
      with o1 have "o1 = ''/''"
        by (cases o1) auto
      with cl show ?thesis
        by (simp add: suffix_def)
    next
      case False
      with cl show ?thesis
        by (simp add: suffix_def)
    qed
  next
    case False
    obtain o1 d1 where st: "clean_loop False (c # cs) ([], 0) = (o1, d1)"
      by (cases "clean_loop False (c # cs) ([], 0)")
    have res: "clean_loop False ((c # cs) @ CHR ''/'' # e) ([], 0) =
               ((if length o1 \<noteq> 0 then o1 @ ''/'' else o1) @ e, d1)"
      unfolding clean_loop_split st clean_loop_plain [OF e] by simp
    have cl: "Clean (d @ CHR ''/'' # e) = (if length o1 \<noteq> 0 then o1 @ ''/'' else o1) @ e"
      using False ene res unfolding Clean_def dc
      by (simp add: Let_def del: clean_loop.simps)
    then show ?thesis
      by (cases "o1 = []") (simp_all add: suffix_def)
  qed
qed

lemma Clean_plain: "plain_elem e \<Longrightarrow> Clean e = e"
proof -
  assume e: "plain_elem e"
  then obtain c cs where ec: "e = c # cs" and c: "\<not> IsPathSeparator c"
    by (cases e) (auto simp: plain_elem_def IsPathSeparator_def)
  have "clean_loop False e ([], 0) = (e, 0)"
    unfolding clean_loop_plain [OF e] by simp
  with c show ?thesis
    unfolding Clean_def by (simp add: ec del: clean_loop.simps)
qed

lemma Join_last_elem:
  assumes "plain_elem e"
  shows "Join [d, e] = e \<or> suffix (CHR ''/'' # e) (Join [d, e])"
proof (cases "d = []")
  case True
  with assms show ?thesis
    by (simp add: Join.simps Clean_plain plain_elem_def)
next
  case False
  with Clean_last_elem [OF assms False] show ?thesis
    by (simp add: Join.simps)
qed

lemma IsAbs_Join: "plain_elem e \<Longrightarrow> IsAbs (Join [d, e]) = IsAbs d"
proof (cases d)
  case Nil
  assume "plain_elem e"
  then have "\<not> IsAbs e"
    by (cases e) (auto simp: IsAbs_def plain_elem_def)
  moreover have "e \<noteq> []"
    using \<open>plain_elem e\<close> by (simp add: plain_elem_def)
  moreover have "\<not> IsAbs []"
    by (simp add: IsAbs_def)
  ultimately show ?thesis
    using Nil by (simp add: Join.simps IsAbs_Clean)
next
  case (Cons c cs)
  then show ?thesis
    by (simp add: Join.simps IsAbs_Clean, simp add: IsAbs_def)
qed

subsection \<open>What the file system calls change\<close>

lemma Mkdir_frame: "\<exists>m. snd (Mkdir s name perm) = s\<lparr>fs := m\<rparr>"
proof -
  have "snd (Mkdir s name perm) = s \<or>
        snd (Mkdir s name perm) = s\<lparr>fs := (fs s)(key_of s name \<mapsto> Dir (perm AND NOT (umask s)))\<rparr>"
    by (simp add: Mkdir_def Let_def split: option.splits)
  then show ?thesis
  proof
    assume "snd (Mkdir s name perm) = s"
    then show ?thesis
      by (intro exI [of _ "fs s"]) simp
  next
    assume "snd (Mkdir s name perm) =
            s\<lparr>fs := (fs s)(key_of s name \<mapsto> Dir (perm AND NOT (umask s)))\<rparr>"
    then show ?thesis
      by auto
  qed
qed

lemma MkdirAll_frame: "\<exists>m. snd (MkdirAll s path perm) = s\<lparr>fs := m\<rparr>"
proof (induction s path perm rule: MkdirAll.induct)
  case (1 s path perm)
  show ?case
  proof (cases "Stat s path")
    case (Inr n)
    then have "snd (MkdirAll s path perm) = s"
      by (simp add: MkdirAll.simps [of s path perm])
    then show ?thesis
      by (intro exI [of _ "fs s"]) simp
  next
    case (Inl e0)
    define r where "r = (if length (MkdirAll_parent path) > 0
                         then MkdirAll s (MkdirAll_parent path) perm else (None, s))"
    have "\<exists>m. snd r = s\<lparr>fs := m\<rparr>"
    proof (cases "length (MkdirAll_parent path) > 0")
      case True
      with "1.IH" [OF Inl] show ?thesis
        by (simp add: r_def)
    next
      case False
      then show ?thesis
        unfolding r_def by (intro exI [of _ "fs s"]) simp
    qed
    then obtain m1 where m1: "snd r = s\<lparr>fs := m1\<rparr>"
      by blast
    obtain m2 where m2: "snd (Mkdir (snd r) path perm) = (snd r)\<lparr>fs := m2\<rparr>"
      using Mkdir_frame by blast
    have eq: "MkdirAll s path perm =
                (case r of
                   (Some err, s1) \<Rightarrow> (Some err, s1)
                 | (None, s1) \<Rightarrow>
                     (case Mkdir s1 path perm of
                        (Some err, s2) \<Rightarrow>
                          (case Lstat s2 path of
                             Inr (Dir md) \<Rightarrow> (None, s2)
                           | _ \<Rightarrow> (Some err, s2))
                      | (None, s2) \<Rightarrow> (None, s2)))"
      unfolding r_def by (subst MkdirAll.simps) (simp only: Inl sum.case)
    have "snd (MkdirAll s path perm) = snd r \<or>
          snd (MkdirAll s path perm) = snd (Mkdir (snd r) path perm)"
      unfolding eq
      by (cases r; cases "Mkdir (snd r) path perm")
         (auto split: option.splits sum.splits node.splits)
    then show ?thesis
    proof
      assume "snd (MkdirAll s path perm) = snd r"
      with m1 show ?thesis
        by auto
    next
      assume "snd (MkdirAll s path perm) = snd (Mkdir (snd r) path perm)"
      with m1 m2 have "snd (MkdirAll s path perm) = s\<lparr>fs := m2\<rparr>"
        by simp
      then show ?thesis
        by auto
    qed
  qed
qed


subsection \<open>setStateDir, OpenFile and InitLog by cases\<close>

lemma spec_base_eq:
  "spec_base s =
     (case LookupEnv s xdgStateEnv of
        (stateDir0, ok) \<Rightarrow>
          (if \<not> ok
           then (case UserHomeDir s of
                   (homeDir, Some err) \<Rightarrow> Inl err
                 | (homeDir, None) \<Rightarrow> Inr (Join [homeDir, xdgStateDefault]))
           else Inr stateDir0))"
  by (simp add: spec_base_def LookupEnv_def xdgStateEnv_def xdgStateDefault_def
           split: option.splits prod.splits)

lemma setStateDir_unfold:
  "setStateDir s =
     (case spec_base s of
        Inl err \<Rightarrow> (([], Some (fmt_Errorf [] err)), s)
      | Inr base \<Rightarrow>
          (case MkdirAll s (Join [base, jasmDir]) (oct 7 0 0) of
             (None, s') \<Rightarrow> ((Join [base, jasmDir], None), s')
           | (Some err, s') \<Rightarrow>
               if \<not> IsExist (Some err)
               then (([], Some (fmt_Errorf [] err)), s')
               else ((Join [base, jasmDir], None), s')))"
  unfolding setStateDir_def spec_base_eq Let_def
  by (simp split: prod.splits)

lemma setStateDir_base_error:
  "spec_base s = Inl err \<Longrightarrow> setStateDir s = (([], Some (fmt_Errorf [] err)), s)"
  by (simp add: setStateDir_unfold)

lemma setStateDir_created:
  "spec_base s = Inr base \<Longrightarrow> MkdirAll s (Join [base, jasmDir]) (oct 7 0 0) = (None, s') \<Longrightarrow>
   setStateDir s = ((Join [base, jasmDir], None), s')"
  by (simp add: setStateDir_unfold)

lemma setStateDir_exists:
  "spec_base s = Inr base \<Longrightarrow> MkdirAll s (Join [base, jasmDir]) (oct 7 0 0) = (Some err, s') \<Longrightarrow>
   IsExist (Some err) \<Longrightarrow> setStateDir s = ((Join [base, jasmDir], None), s')"
  by (simp add: setStateDir_unfold)

lemma setStateDir_mkdir_error:
  "spec_base s = Inr base \<Longrightarrow> MkdirAll s (Join [base, jasmDir]) (oct 7 0 0) = (Some err, s') \<Longrightarrow>
   \<not> IsExist (Some err) \<Longrightarrow> setStateDir s = (([], Some (fmt_Errorf [] err)), s')"
  by (simp add: setStateDir_unfold)

lemma setStateDir_cases:
  obtains (base_error) err where "spec_base s = Inl err"
      and "setStateDir s = (([], Some (fmt_Errorf [] err)), s)"
    | (mkdir_error) base err s' where "spec_base s = Inr base"
      and "MkdirAll s (Join [base, jasmDir]) (oct 7 0 0) = (Some err, s')"
      and "\<not> IsExist (Some err)"
      and "setStateDir s = (([], Some (fmt_Errorf [] err)), s')"
    | (ok) base e s' where "spec_base s = Inr base"
      and "MkdirAll s (Join [base, jasmDir]) (oct 7 0 0) = (e, s')"
      and "e = None \<or> IsExist e"
      and "setStateDir s = ((Join [base, jasmDir], None), s')"
proof (cases "spec_base s")
  case (Inl err)
  with base_error setStateDir_base_error show ?thesis
    by blast
next
  case (Inr base)
  obtain e s' where mk: "MkdirAll s (Join [base, jasmDir]) (oct 7 0 0) = (e, s')"
    by (cases "MkdirAll s (Join [base, jasmDir]) (oct 7 0 0)") auto
  show ?thesis
  proof (cases e)
    case None
    with Inr mk ok setStateDir_created show ?thesis
      by blast
  next
    case (Some err)
    show ?thesis
    proof (cases "IsExist (Some err)")
      case True
      with Inr mk Some ok setStateDir_exists show ?thesis
        by blast
    next
      case False
      with Inr mk Some mkdir_error setStateDir_mkdir_error show ?thesis
        by blast
    qed
  qed
qed

lemma setStateDir_frame: "\<exists>m. snd (setStateDir s) = s\<lparr>fs := m\<rparr>"
proof (cases rule: setStateDir_cases [of s])
  case (base_error err)
  then have "snd (setStateDir s) = s"
    by simp
  then show ?thesis
    by (intro exI [of _ "fs s"]) simp
next
  case (mkdir_error base err s')
  with MkdirAll_frame [of s "Join [base, jasmDir]" "oct 7 0 0"] show ?thesis
    by simp
next
  case (ok base e s')
  with MkdirAll_frame [of s "Join [base, jasmDir]" "oct 7 0 0"] show ?thesis
    by simp
qed

lemma OpenFile_cases:
  obtains (error) e where "OpenFile s name flag perm = ((None, Some (PathError ''open'' name e)), s)"
    | (opened) m where "OpenFile s name flag perm =
          ((Some (length (files s)), None),
           s\<lparr>fs := m,
             files := files s @ [\<lparr>f_key = key_of s name, f_name = name, f_flag = flag,
                                  f_off = 0, f_closed = False\<rparr>]\<rparr>)"
      and "name \<noteq> []" and "open_node s (key_of s name) flag perm = Inr m"
proof (cases "if name = [] then Inl ENOENT else open_node s (key_of s name) flag perm")
  case (Inl e)
  then have "OpenFile s name flag perm = ((None, Some (PathError ''open'' name e)), s)"
    unfolding OpenFile_def by (simp only: sum.case)
  with error show ?thesis
    by blast
next
  case (Inr m)
  then have "OpenFile s name flag perm =
          ((Some (length (files s)), None),
           s\<lparr>fs := m,
             files := files s @ [\<lparr>f_key = key_of s name, f_name = name, f_flag = flag,
                                  f_off = 0, f_closed = False\<rparr>]\<rparr>)"
    unfolding OpenFile_def by (simp only: sum.case)
  moreover from Inr have "name \<noteq> []" "open_node s (key_of s name) flag perm = Inr m"
    by (auto split: if_splits)
  ultimately show ?thesis
    using opened by blast
qed

lemma same_loggers_refl: "same_loggers s s"
  by (simp add: same_loggers_def)

lemma same_loggers_fs: "same_loggers s (s\<lparr>fs := m\<rparr>)"
  by (simp add: same_loggers_def)

lemma same_loggers_fs_files: "same_loggers s (s\<lparr>fs := m, files := fl\<rparr>)"
  by (simp add: same_loggers_def)

lemma same_loggers_trans: "same_loggers s t \<Longrightarrow> same_loggers t u \<Longrightarrow> same_loggers s u"
  by (simp add: same_loggers_def)

lemma setStateDir_same_loggers: "same_loggers s (snd (setStateDir s))"
proof -
  obtain m where "snd (setStateDir s) = s\<lparr>fs := m\<rparr>"
    using setStateDir_frame by blast
  then show ?thesis
    by (simp add: same_loggers_fs)
qed

lemma OpenFile_same_loggers: "same_loggers s (snd (OpenFile s name flag perm))"
  by (cases rule: OpenFile_cases [of s name flag perm])
     (simp_all add: same_loggers_refl same_loggers_fs_files)

lemma setStateDir_result:
  "(\<exists>p. fst (setStateDir s) = (p, None)) \<or> (\<exists>e. fst (setStateDir s) = ([], Some (fmt_Errorf [] e)))"
  by (cases rule: setStateDir_cases [of s]) auto

text \<open>InitLog, unfolded along the result of setStateDir and OpenFile.\<close>

lemma InitLog_setStateDir_error:
  "setStateDir s = ((p, Some e), s1) \<Longrightarrow> InitLog s = ((None, Some (fmt_Errorf [] e)), s1)"
  by (simp add: InitLog_def)

lemma InitLog_OpenFile_error:
  "setStateDir s = ((p, None), s1) \<Longrightarrow>
   OpenFile s1 (Join [p, fileLog]) (O_APPEND OR O_CREATE OR O_WRONLY) (oct 6 6 6) = ((f, Some e), s2) \<Longrightarrow>
   InitLog s = ((None, Some (fmt_Errorf ''open logFile: '' e)), s2)"
  by (simp add: InitLog_def)

lemma InitLog_success:
  "setStateDir s = ((p, None), s1) \<Longrightarrow>
   OpenFile s1 (Join [p, fileLog]) (O_APPEND OR O_CREATE OR O_WRONLY) (oct 6 6 6) = ((f, None), s2) \<Longrightarrow>
   InitLog s =
     ((f, None),
      s2\<lparr>info := log_New (MultiWriter [Single Stderr, Single (FileSink f)]) ''[jasmd] '' 0,
         warn := log_New (MultiWriter [Single Stderr, Single (FileSink f)]) ''WARNING: ''
                   (Ldate OR Ltime OR Lshortfile),
         dbg := log_New (MultiWriter [Single Stderr, Single (FileSink f)]) ''DEBUG: ''
                  (Ldate OR Ltime OR Lshortfile),
         errorl := log_New (MultiWriter [Single Stderr, Single (FileSink f)]) ''ERROR: ''
                     (Ldate OR Ltime OR Lshortfile)\<rparr>)"
  by (simp add: InitLog_def Let_def)


lemma InitLog_cases:
  obtains (dir_error) e s1 where "fst (setStateDir s) = ([], Some e)"
      and "InitLog s = ((None, Some (fmt_Errorf [] e)), s1)" and "s1 = snd (setStateDir s)"
    | (open_error) p e s1 where "setStateDir s = ((p, None), s1)"
      and "OpenFile s1 (Join [p, fileLog]) (O_APPEND OR O_CREATE OR O_WRONLY) (oct 6 6 6)
             = ((None, Some (PathError ''open'' (Join [p, fileLog]) e)), s1)"
      and "InitLog s = ((None, Some (fmt_Errorf ''open logFile: ''
                                       (PathError ''open'' (Join [p, fileLog]) e))), s1)"
    | (success) p s1 f s2 where "setStateDir s = ((p, None), s1)"
      and "OpenFile s1 (Join [p, fileLog]) (O_APPEND OR O_CREATE OR O_WRONLY) (oct 6 6 6)
             = ((f, None), s2)"
      and "InitLog s =
     ((f, None),
      s2\<lparr>info := log_New (MultiWriter [Single Stderr, Single (FileSink f)]) ''[jasmd] '' 0,
         warn := log_New (MultiWriter [Single Stderr, Single (FileSink f)]) ''WARNING: ''
                   (Ldate OR Ltime OR Lshortfile),
         dbg := log_New (MultiWriter [Single Stderr, Single (FileSink f)]) ''DEBUG: ''
                  (Ldate OR Ltime OR Lshortfile),
         errorl := log_New (MultiWriter [Single Stderr, Single (FileSink f)]) ''ERROR: ''
                     (Ldate OR Ltime OR Lshortfile)\<rparr>)"
proof -
  obtain p e1 s1 where sd: "setStateDir s = ((p, e1), s1)"
    by (cases "setStateDir s") auto
  show ?thesis
  proof (cases e1)
    case (Some e)
    with sd setStateDir_result [of s] have "fst (setStateDir s) = ([], Some e)"
      by auto
    moreover from sd Some have "InitLog s = ((None, Some (fmt_Errorf [] e)), s1)"
      by (simp add: InitLog_setStateDir_error)
    ultimately show ?thesis
      using dir_error sd by simp
  next
    case None
    show ?thesis
    proof (cases rule: OpenFile_cases [of s1 "Join [p, fileLog]"
                         "O_APPEND OR O_CREATE OR O_WRONLY" "oct 6 6 6"])
      case (error e)
      with sd None open_error InitLog_OpenFile_error [of s p s1 None _ s1] show ?thesis
        by blast
    next
      case (opened m)
      with sd None success InitLog_success [of s p s1 "Some (length (files s1))"] show ?thesis
        by blast
    qed
  qed
qed

lemma InitLog_failure:
  assumes "snd (fst (InitLog s)) \<noteq> None"
  shows "fst (fst (InitLog s)) = None \<and> same_loggers s (snd (InitLog s)) \<and>
         (\<exists>pre e. snd (fst (InitLog s)) = Some (fmt_Errorf pre e))"
proof (cases rule: InitLog_cases [of s])
  case (dir_error e s1)
  with setStateDir_same_loggers [of s] show ?thesis
    by auto
next
  case (open_error p e s1)
  with setStateDir_same_loggers [of s] show ?thesis
    by auto
next
  case (success p s1 f s2)
  with assms show ?thesis
    by simp
qed


subsection \<open>Writers and loggers\<close>

lemma File_Write_frame:
  "stderr (snd (File_Write s f b)) = stderr s \<and> same_loggers s (snd (File_Write s f b))"
  by (simp add: File_Write_def Let_def same_loggers_def split: option.splits node.splits)

lemma File_Write_append:
  assumes r: "log_ready s h"
  shows "\<exists>t. File_Write s (Some h) b = (None, t) \<and> stderr t = stderr s \<and>
             file_content t h = map_option (\<lambda>d. d @ b) (file_content s h) \<and>
             log_ready t h \<and> same_loggers s t"
proof -
  let ?fl = "files s ! h"
  from r have h: "h < length (files s)" and op: "\<not> f_closed ?fl" and w: "writable (f_flag ?fl)"
    and ap: "has_flag (f_flag ?fl) O_APPEND"
    by (simp_all add: log_ready_def)
  from r obtain md d where c: "fs s (f_key ?fl) = Some (File md d)"
    by (auto simp: log_ready_def file_content_def split: option.splits node.splits)
  let ?t = "s\<lparr>fs := (fs s)(f_key ?fl \<mapsto> File md (d @ b)),
              files := (files s)[h := ?fl\<lparr>f_off := length d + length b\<rparr>]\<rparr>"
  have w1: "File_Write s (Some h) b = (None, ?t)"
    using h op w ap c by (simp add: File_Write_def Let_def)
  have "file_content s h = Some d"
    using h c by (simp add: file_content_def)
  moreover have "file_content ?t h = Some (d @ b)"
    using h by (simp add: file_content_def)
  moreover have "log_ready ?t h"
    using h op w ap by (simp add: log_ready_def file_content_def)
  moreover have "same_loggers s ?t"
    by (simp add: same_loggers_def)
  ultimately show ?thesis
    using w1 by simp
qed

lemma combined_Write_stderr:
  "stderr (snd (Writer_Write s (Multi [Stderr, FileSink f]) b)) = stderr s @ b \<and>
   same_loggers s (snd (Writer_Write s (Multi [Stderr, FileSink f]) b))"
proof -
  let ?s1 = "s\<lparr>stderr := stderr s @ b\<rparr>"
  have "snd (Writer_Write s (Multi [Stderr, FileSink f]) b) = snd (File_Write ?s1 f b)"
    by (simp split: prod.splits option.splits)
  moreover have "stderr (snd (File_Write ?s1 f b)) = stderr ?s1"
    and "same_loggers ?s1 (snd (File_Write ?s1 f b))"
    using File_Write_frame [of ?s1 f b] by blast+
  ultimately show ?thesis
    by (simp add: same_loggers_def)
qed

lemma log_ready_stderr: "log_ready (s\<lparr>stderr := x\<rparr>) h = log_ready s h"
  by (simp add: log_ready_def file_content_def)

lemma file_content_stderr: "file_content (s\<lparr>stderr := x\<rparr>) h = file_content s h"
  by (simp add: file_content_def)

lemma combined_Write:
  assumes r: "log_ready s h"
  shows "\<exists>t. Writer_Write s (Multi [Stderr, FileSink (Some h)]) b = (None, t) \<and>
             emitted s t h b \<and> log_ready t h \<and> same_loggers s t"
proof -
  let ?s1 = "s\<lparr>stderr := stderr s @ b\<rparr>"
  from r have "log_ready ?s1 h"
    by (simp only: log_ready_stderr)
  from File_Write_append [OF this, of b]
  obtain t where t: "File_Write ?s1 (Some h) b = (None, t)" "stderr t = stderr ?s1"
    "file_content t h = map_option (\<lambda>d. d @ b) (file_content ?s1 h)"
    "log_ready t h" "same_loggers ?s1 t"
    by blast
  have "Writer_Write s (Multi [Stderr, FileSink (Some h)]) b = (None, t)"
    using t(1) by simp
  moreover have "emitted s t h b"
    using t(2,3) by (simp add: emitted_def file_content_stderr)
  moreover have "same_loggers s t"
    using t(5) by (simp add: same_loggers_def)
  ultimately show ?thesis
    using t(4) by blast
qed

lemma log_line_contains: "\<exists>pre post. log_line s l calldepth msg = pre @ msg @ post"
proof -
  let ?h = "formatHeader s (l_prefix l) (l_flag l)
              (fst (if has_flag (l_flag l) (Lshortfile OR Llongfile)
                    then (case caller s calldepth of Some fl \<Rightarrow> fl | None \<Rightarrow> (''???'', 0))
                    else ([], 0)))
              (snd (if has_flag (l_flag l) (Lshortfile OR Llongfile)
                    then (case caller s calldepth of Some fl \<Rightarrow> fl | None \<Rightarrow> (''???'', 0))
                    else ([], 0)))"
  have "log_line s l calldepth msg = ?h @ msg @ [] \<or>
        log_line s l calldepth msg = ?h @ msg @ [CHR 0x0A]"
    by (simp add: log_line_def Let_def)
  then show ?thesis
    by blast
qed

lemma log_line_Debug: "log_line (s\<lparr>Debug := b\<rparr>) l calldepth msg = log_line s l calldepth msg"
  by (simp add: log_line_def formatHeader_def)

lemma File_Write_Debug:
  "File_Write (s\<lparr>Debug := b\<rparr>) f x =
     (fst (File_Write s f x), (snd (File_Write s f x))\<lparr>Debug := b\<rparr>)"
  by (simp add: File_Write_def Let_def split: option.splits node.splits)

lemma sink_Write_Debug:
  "sink_Write (s\<lparr>Debug := b\<rparr>) w x =
     (fst (sink_Write s w x), (snd (sink_Write s w x))\<lparr>Debug := b\<rparr>)"
  by (cases w) (simp_all add: File_Write_Debug)

lemma multi_Write_Debug:
  "multi_Write (s\<lparr>Debug := b\<rparr>) ws x =
     (fst (multi_Write s ws x), (snd (multi_Write s ws x))\<lparr>Debug := b\<rparr>)"
proof (induction ws arbitrary: s)
  case Nil
  show ?case
    by simp
next
  case (Cons w ws)
  obtain e s1 where w: "sink_Write s w x = (e, s1)"
    by (cases "sink_Write s w x") auto
  then have w': "sink_Write (s\<lparr>Debug := b\<rparr>) w x = (e, s1\<lparr>Debug := b\<rparr>)"
    by (simp add: sink_Write_Debug)
  show ?case
    by (cases e) (simp_all add: w w' Cons.IH)
qed

lemma Writer_Write_Debug:
  "Writer_Write (s\<lparr>Debug := b\<rparr>) w x =
     (fst (Writer_Write s w x), (snd (Writer_Write s w x))\<lparr>Debug := b\<rparr>)"
  by (cases w) (simp_all add: sink_Write_Debug multi_Write_Debug)

lemma Logger_Output_Debug:
  "Logger_Output (s\<lparr>Debug := b\<rparr>) lp calldepth msg =
     map_outcome (\<lambda>r. (fst r, (snd r)\<lparr>Debug := b\<rparr>)) (Logger_Output s lp calldepth msg)"
  by (cases lp) (simp_all add: Logger_Output_def log_line_Debug Writer_Write_Debug)

subsection \<open>The state after a successful InitLog\<close>

lemma open_node_file:
  assumes "open_node s k flag perm = Inr m" and "writable flag"
  shows "\<exists>md d. m k = Some (File md d)"
proof (cases "k = []")
  case True
  with assms show ?thesis
    by (simp add: open_node_def node_at_def split: option.splits)
next
  case False
  with assms show ?thesis
    by (auto simp: open_node_def node_at_def split: option.splits node.splits if_splits)
qed

lemma log_flags_writable: "writable (O_APPEND OR O_CREATE OR O_WRONLY)"
  by (simp add: writable_def has_flag_def O_APPEND_def O_CREATE_def O_WRONLY_def O_RDWR_def)

lemma log_flags_append: "has_flag (O_APPEND OR O_CREATE OR O_WRONLY) O_APPEND"
  by (simp add: has_flag_def O_APPEND_def O_CREATE_def O_WRONLY_def)

lemma log_flags_create: "has_flag (O_APPEND OR O_CREATE OR O_WRONLY) O_CREATE"
  by (simp add: has_flag_def O_APPEND_def O_CREATE_def O_WRONLY_def)

lemma setStateDir_keeps:
  "files (snd (setStateDir s)) = files s \<and> stderr (snd (setStateDir s)) = stderr s \<and>
   cwd (snd (setStateDir s)) = cwd s \<and> umask (snd (setStateDir s)) = umask s"
proof -
  obtain m where "snd (setStateDir s) = s\<lparr>fs := m\<rparr>"
    using setStateDir_frame by blast
  then show ?thesis
    by simp
qed

lemma log_ready_cong: "files t = files s \<Longrightarrow> fs t = fs s \<Longrightarrow> log_ready t h = log_ready s h"
  by (simp add: log_ready_def file_content_def)

text \<open>Opening a log file with the flags of InitLog and InitClientLog.\<close>

lemma OpenFile_log_ok:
  assumes "OpenFile s name (O_APPEND OR O_CREATE OR O_WRONLY) perm = ((f, None), t)"
  shows "f = Some (length (files s)) \<and> log_ready t (length (files s)) \<and>
         files t = files s @ [\<lparr>f_key = key_of s name, f_name = name,
                                f_flag = O_APPEND OR O_CREATE OR O_WRONLY,
                                f_off = 0, f_closed = False\<rparr>] \<and>
         stderr t = stderr s \<and> same_loggers s t"
proof (cases rule: OpenFile_cases [of s name "O_APPEND OR O_CREATE OR O_WRONLY" perm])
  case (error e)
  with assms show ?thesis
    by simp
next
  case (opened m)
  from open_node_file [OF opened(3) log_flags_writable]
  obtain md d where "m (key_of s name) = Some (File md d)"
    by blast
  with opened(1) assms show ?thesis
    by (auto simp: log_ready_def file_content_def log_flags_writable log_flags_append
          same_loggers_def nth_append)
qed

lemma InitLog_ok:
  assumes "fst (InitLog s) = (f, None)"
  shows "f = Some (length (files s)) \<and>
         log_ready (snd (InitLog s)) (length (files s)) \<and>
         f_name (files (snd (InitLog s)) ! length (files s))
           = Join [fst (fst (setStateDir s)), fileLog] \<and>
         fst (setStateDir s) = (fst (fst (setStateDir s)), None) \<and>
         info (snd (InitLog s)) =
           Some \<lparr>l_out = Multi [Stderr, FileSink f], l_prefix = ''[jasmd] '', l_flag = 0\<rparr> \<and>
         warn (snd (InitLog s)) =
           Some \<lparr>l_out = Multi [Stderr, FileSink f], l_prefix = ''WARNING: '',
                  l_flag = Ldate OR Ltime OR Lshortfile\<rparr> \<and>
         dbg (snd (InitLog s)) =
           Some \<lparr>l_out = Multi [Stderr, FileSink f], l_prefix = ''DEBUG: '',
                  l_flag = Ldate OR Ltime OR Lshortfile\<rparr> \<and>
         errorl (snd (InitLog s)) =
           Some \<lparr>l_out = Multi [Stderr, FileSink f], l_prefix = ''ERROR: '',
                  l_flag = Ldate OR Ltime OR Lshortfile\<rparr> \<and>
         Debug (snd (InitLog s)) = Debug s \<and> stderr (snd (InitLog s)) = stderr s"
proof (cases rule: InitLog_cases [of s])
  case (dir_error e s1)
  with assms show ?thesis
    by simp
next
  case (open_error p e s1)
  with assms show ?thesis
    by simp
next
  case (success p s1 f' s2)
  with assms have f': "f' = f"
    by simp
  from success(1) have s1: "s1 = snd (setStateDir s)" and p: "fst (setStateDir s) = (p, None)"
    by simp_all
  have keep: "files s1 = files s" "stderr s1 = stderr s"
    using setStateDir_keeps [of s] s1 by simp_all
  have sl: "same_loggers s s1"
    using setStateDir_same_loggers [of s] s1 by simp
  from OpenFile_log_ok [OF success(2) [unfolded f']]
  have o: "f = Some (length (files s1))" "log_ready s2 (length (files s1))"
    "files s2 = files s1 @ [\<lparr>f_key = key_of s1 (Join [p, fileLog]), f_name = Join [p, fileLog],
                                f_flag = O_APPEND OR O_CREATE OR O_WRONLY,
                                f_off = 0, f_closed = False\<rparr>]"
    "stderr s2 = stderr s1" "same_loggers s1 s2"
    by blast+
  have lr: "log_ready (snd (InitLog s)) (length (files s))"
  proof -
    have "log_ready (snd (InitLog s)) (length (files s)) = log_ready s2 (length (files s))"
      by (rule log_ready_cong) (simp_all add: success(3))
    with o(2) keep(1) show ?thesis
      by simp
  qed
  have nm: "f_name (files (snd (InitLog s)) ! length (files s)) = Join [p, fileLog]"
    using o(3) keep(1) by (simp add: success(3) f')
  have dbgv: "Debug (snd (InitLog s)) = Debug s"
    using sl o(5) by (simp add: success(3) same_loggers_def)
  show ?thesis
    using o(1) lr nm p dbgv o(4) keep
    by (simp add: success(3) f' log_New_def MultiWriter_def)
qed

subsection \<open>The logging functions\<close>

lemma log_line_plain:
  "l_flag l = 0 \<Longrightarrow> log_line s l calldepth msg = ensure_newline (l_prefix l @ msg)"
  by (simp add: log_line_def formatHeader_def has_flag_def ensure_newline_def Let_def)

lemma stamped_flags:
  "has_flag (Ldate OR Ltime OR Lshortfile) Ldate"
  "has_flag (Ldate OR Ltime OR Lshortfile) (Ltime OR Lmicroseconds)"
  "has_flag (Ldate OR Ltime OR Lshortfile) (Ldate OR Ltime OR Lmicroseconds)"
  "has_flag (Ldate OR Ltime OR Lshortfile) (Lshortfile OR Llongfile)"
  "has_flag (Ldate OR Ltime OR Lshortfile) Lshortfile"
  "\<not> has_flag (Ldate OR Ltime OR Lshortfile) Lmicroseconds"
  "\<not> has_flag (Ldate OR Ltime OR Lshortfile) LUTC"
  "\<not> has_flag (Ldate OR Ltime OR Lshortfile) Lmsgprefix"
  by (simp_all add: has_flag_def Ldate_def Ltime_def Lshortfile_def Llongfile_def LUTC_def
        Lmsgprefix_def Lmicroseconds_def)

lemma log_line_stamped:
  assumes "l_flag l = Ldate OR Ltime OR Lshortfile"
  shows "log_line s l calldepth msg =
     ensure_newline (l_prefix l @ date_stamp (now s) @ '' '' @ time_stamp (now s) @ '' ''
                     @ call_site s calldepth @ '': '' @ msg)"
proof -
  obtain fname line where c: "(case caller s calldepth of Some fl \<Rightarrow> fl | None \<Rightarrow> (''???'', 0))
                              = (fname, line)"
    by (cases "case caller s calldepth of Some fl \<Rightarrow> fl | None \<Rightarrow> (''???'', 0)") auto
  have h: "formatHeader s (l_prefix l) (Ldate OR Ltime OR Lshortfile) fname line =
           l_prefix l @ date_stamp (now s) @ '' '' @ time_stamp (now s) @ '' ''
             @ short_name fname @ '':'' @ itoa line (- 1) @ '': ''"
    unfolding formatHeader_def Let_def
    by (simp only: stamped_flags if_True if_False date_stamp_def time_stamp_def
          append_Nil2 append_assoc append_Nil not_True_eq_False not_False_eq_True)
  show ?thesis
    unfolding log_line_def Let_def assms
    by (simp only: stamped_flags if_True c fst_conv snd_conv h call_site_def prod.case
          ensure_newline_def append_assoc)
qed

lemma Output_bound:
  "l_out l = Multi [Stderr, FileSink f] \<Longrightarrow>
   Logger_Output s (Some l) calldepth msg
     = Done (Writer_Write s (Multi [Stderr, FileSink f]) (log_line s l calldepth msg))"
  by (simp add: Logger_Output_def)

lemma Output_bound_emits:
  assumes "log_ready s h" and "l_out l = Multi [Stderr, FileSink (Some h)]"
  shows "\<exists>t. map_outcome snd (Logger_Output s (Some l) calldepth msg) = Done t \<and>
             emitted s t h (log_line s l calldepth msg) \<and> log_ready t h \<and> same_loggers s t"
  using combined_Write [OF assms(1), of "log_line s l calldepth msg"]
  by (auto simp: Output_bound [OF assms(2)])

lemma Output_bound_stderr:
  assumes "l_out l = Multi [Stderr, FileSink f]"
  shows "stderr_after (map_outcome snd (Logger_Output s (Some l) calldepth msg))
           = stderr s @ log_line s l calldepth msg"
  using combined_Write_stderr [of s f "log_line s l calldepth msg"]
  by (simp add: Output_bound [OF assms])

lemma Debugf_unfold:
  "dbg s = Some l \<Longrightarrow> Debug s \<Longrightarrow>
   Debugf Sprintf s message args
     = map_outcome snd (Logger_Output s (Some l) 2 (formatted Sprintf message args))"
  by (simp add: Debugf_def formatted_def split: outcome.splits prod.splits)

lemma Infof_unfold:
  "info s = Some l \<Longrightarrow>
   Infof Sprintf s msg args
     = map_outcome snd (Logger_Output s (Some l) 1 (formatted Sprintf msg args))"
  by (simp add: Infof_def formatted_def split: outcome.splits prod.splits)

lemma Warnf_unfold:
  "warn s = Some l \<Longrightarrow>
   Warnf Sprintf s message args
     = map_outcome snd (Logger_Output s (Some l) 2 (formatted Sprintf message args))"
  by (simp add: Warnf_def formatted_def split: outcome.splits prod.splits)

lemma Errorf_unfold:
  "errorl s = Some l \<Longrightarrow>
   Errorf Sprintf s message args
     = map_outcome snd (Logger_Output s (Some l) 2 (formatted Sprintf message args))"
  by (simp add: Errorf_def formatted_def split: outcome.splits prod.splits)

lemma Output_no_panic: "Logger_Output s (Some l) calldepth msg \<noteq> Panic"
  by (simp add: Logger_Output_def)

lemma logging_never_panics:
  "Debugf Sprintf s message args \<noteq> Panic \<and> Infof Sprintf s message args \<noteq> Panic \<and>
   Warnf Sprintf s message args \<noteq> Panic \<and> Errorf Sprintf s message args \<noteq> Panic"
proof -
  have d: "Debugf Sprintf s message args \<noteq> Panic"
  proof (cases "dbg s = None \<or> \<not> Debug s")
    case True
    then show ?thesis
      by (auto simp: Debugf_def)
  next
    case False
    then obtain l where "dbg s = Some l" "Debug s"
      by auto
    with Output_no_panic [of s l 2 "formatted Sprintf message args"] show ?thesis
      by (cases "Logger_Output s (Some l) 2 (formatted Sprintf message args)")
         (simp_all add: Debugf_unfold)
  qed
  have i: "Infof Sprintf s message args \<noteq> Panic"
  proof (cases "info s")
    case None
    then show ?thesis
      by (simp add: Infof_def)
  next
    case (Some l)
    with Output_no_panic [of s l 1 "formatted Sprintf message args"] show ?thesis
      by (cases "Logger_Output s (Some l) 1 (formatted Sprintf message args)")
         (simp_all add: Infof_unfold)
  qed
  have w: "Warnf Sprintf s message args \<noteq> Panic"
  proof (cases "warn s")
    case None
    then show ?thesis
      by (simp add: Warnf_def)
  next
    case (Some l)
    with Output_no_panic [of s l 2 "formatted Sprintf message args"] show ?thesis
      by (cases "Logger_Output s (Some l) 2 (formatted Sprintf message args)")
         (simp_all add: Warnf_unfold)
  qed
  have e: "Errorf Sprintf s message args \<noteq> Panic"
  proof (cases "errorl s")
    case None
    then show ?thesis
      by (simp add: Errorf_def)
  next
    case (Some l)
    with Output_no_panic [of s l 2 "formatted Sprintf message args"] show ?thesis
      by (cases "Logger_Output s (Some l) 2 (formatted Sprintf message args)")
         (simp_all add: Errorf_unfold)
  qed
  from d i w e show ?thesis
    by blast
qed

lemma map_snd_Debug:
  "map_outcome snd (map_outcome (\<lambda>r. (fst r, (snd r)\<lparr>Debug := b\<rparr>)) x)
     = map_outcome (\<lambda>u. u\<lparr>Debug := b\<rparr>) (map_outcome snd x)"
  by (cases x) simp_all

lemma Infof_Debug:
  "Infof Sprintf (s\<lparr>Debug := b\<rparr>) message args
     = map_outcome (\<lambda>u. u\<lparr>Debug := b\<rparr>) (Infof Sprintf s message args)"
proof (cases "info s")
  case None
  then show ?thesis
    by (simp add: Infof_def)
next
  case (Some l)
  then have "info (s\<lparr>Debug := b\<rparr>) = Some l"
    by simp
  then show ?thesis
    by (simp add: Infof_unfold [OF Some] Infof_unfold Logger_Output_Debug map_snd_Debug)
qed

lemma Warnf_Debug:
  "Warnf Sprintf (s\<lparr>Debug := b\<rparr>) message args
     = map_outcome (\<lambda>u. u\<lparr>Debug := b\<rparr>) (Warnf Sprintf s message args)"
proof (cases "warn s")
  case None
  then show ?thesis
    by (simp add: Warnf_def)
next
  case (Some l)
  then have "warn (s\<lparr>Debug := b\<rparr>) = Some l"
    by simp
  then show ?thesis
    by (simp add: Warnf_unfold [OF Some] Warnf_unfold Logger_Output_Debug map_snd_Debug)
qed

lemma Errorf_Debug:
  "Errorf Sprintf (s\<lparr>Debug := b\<rparr>) message args
     = map_outcome (\<lambda>u. u\<lparr>Debug := b\<rparr>) (Errorf Sprintf s message args)"
proof (cases "errorl s")
  case None
  then show ?thesis
    by (simp add: Errorf_def)
next
  case (Some l)
  then have "errorl (s\<lparr>Debug := b\<rparr>) = Some l"
    by simp
  then show ?thesis
    by (simp add: Errorf_unfold [OF Some] Errorf_unfold Logger_Output_Debug map_snd_Debug)
qed

lemma InitLog_ok_bound:
  assumes "InitLog s = ((f, None), t)"
  shows "f = Some (length (files s))" "log_ready t (length (files s))"
    "info t = Some (bound_logger f ''[jasmd] '' 0)"
    "warn t = Some (bound_logger f ''WARNING: '' (Ldate OR Ltime OR Lshortfile))"
    "dbg t = Some (bound_logger f ''DEBUG: '' (Ldate OR Ltime OR Lshortfile))"
    "errorl t = Some (bound_logger f ''ERROR: '' (Ldate OR Ltime OR Lshortfile))"
    "Debug t = Debug s" "stderr t = stderr s"
    "f_name (files t ! length (files s)) = Join [fst (fst (setStateDir s)), fileLog]"
  using InitLog_ok [of s f] assms by (simp_all add: bound_logger_def)

lemma bound_logger_out: "l_out (bound_logger f pre flag) = Multi [Stderr, FileSink f]"
  by (simp add: bound_logger_def)

subsection \<open>What exists after MkdirAll and OpenFile\<close>

lemma walk_node: "walk m a bs = Inr n \<Longrightarrow> node_at m (a @ bs) = Some n"
proof (induction bs arbitrary: a)
  case Nil
  then show ?case
    by (simp split: option.splits)
next
  case (Cons b bs)
  from Cons.prems have "walk m (a @ [b]) bs = Inr n"
    by (simp split: option.splits node.splits)
  from Cons.IH [OF this] show ?case
    by simp
qed

lemma walk_snoc:
  "walk m a (bs @ [c]) =
     (case walk m a bs of
        Inl e \<Rightarrow> Inl e
      | Inr (Dir md) \<Rightarrow> (case node_at m (a @ bs @ [c]) of None \<Rightarrow> Inl ENOENT | Some n \<Rightarrow> Inr n)
      | Inr (File md d) \<Rightarrow> Inl ENOTDIR
      | Inr Dangling \<Rightarrow> Inl ENOENT)"
proof (induction bs arbitrary: a)
  case Nil
  show ?case
    by (simp split: option.splits node.splits)
next
  case (Cons b bs)
  from Cons.IH [of "a @ [b]"] show ?case
    by (simp split: option.splits node.splits)
qed

lemma walk_upd_longer:
  "length a + length bs < length k \<Longrightarrow> walk (m(k \<mapsto> v)) a bs = walk m a bs"
proof (induction bs arbitrary: a)
  case Nil
  then have "a \<noteq> k"
    by auto
  then show ?case
    by (simp add: node_at_def)
next
  case (Cons b bs)
  then have "a \<noteq> k"
    by auto
  then have node: "node_at (m(k \<mapsto> v)) a = node_at m a"
    by (simp add: node_at_def)
  from Cons.prems have "length (a @ [b]) + length bs < length k"
    by simp
  then have "walk (m(k \<mapsto> v)) (a @ [b]) bs = walk m (a @ [b]) bs"
    by (rule Cons.IH)
  then show ?case
    by (simp only: walk.simps node)
qed

lemma parent_dir_upd: "k \<noteq> [] \<Longrightarrow> parent_dir (m(k \<mapsto> v)) k = parent_dir m k"
proof -
  assume "k \<noteq> []"
  then have "length ([]::string list) + length (butlast k) < length k"
    by simp
  then have "walk (m(k \<mapsto> v)) [] (butlast k) = walk m [] (butlast k)"
    by (rule walk_upd_longer)
  then show ?thesis
    by (simp add: parent_dir_def)
qed

lemma walk_last:
  assumes "k \<noteq> []" and "parent_dir m k = None"
  shows "walk m [] k = (case m k of None \<Rightarrow> Inl ENOENT | Some n \<Rightarrow> Inr n)"
proof -
  from assms(2) obtain md where "walk m [] (butlast k) = Inr (Dir md)"
    by (auto simp: parent_dir_def split: sum.splits node.splits)
  moreover have "k = butlast k @ [last k]"
    using assms(1) by simp
  ultimately show ?thesis
    using walk_snoc [of m "[]" "butlast k" "last k"] assms(1) by (simp add: node_at_def)
qed

lemma Mkdir_creates:
  assumes "Mkdir s name perm = (None, t)"
  shows "Lstat t name = Inr (Dir (perm AND NOT (umask s))) \<and>
         t = s\<lparr>fs := (fs s)(key_of s name \<mapsto> Dir (perm AND NOT (umask s)))\<rparr> \<and>
         fs s (key_of s name) = None"
proof -
  let ?k = "key_of s name"
  from assms have n: "name \<noteq> []" and k: "?k \<noteq> []" and p: "parent_dir (fs s) ?k = None"
    and f: "fs s ?k = None" and nw: "\<not> no_write s ?k"
    by (auto simp: Mkdir_def Let_def split: if_splits option.splits)
  with assms have t: "t = s\<lparr>fs := (fs s)(?k \<mapsto> Dir (perm AND NOT (umask s)))\<rparr>"
    by (simp add: Mkdir_def Let_def)
  have kt: "key_of t name = ?k"
    by (simp add: t key_of_def)
  have "parent_dir (fs t) ?k = None"
    using p k by (simp add: t parent_dir_upd)
  from walk_last [OF k this] have "walk (fs t) [] ?k = Inr (Dir (perm AND NOT (umask s)))"
    by (simp add: t)
  with n kt t f show ?thesis
    by (simp add: Lstat_def)
qed

lemma Mkdir_error_keeps: "Mkdir s name perm = (Some e, t) \<Longrightarrow> t = s"
  by (auto simp: Mkdir_def Let_def split: if_splits option.splits)

lemma MkdirAll_unfold_slow:
  assumes "Stat s path = Inl e0"
  shows "MkdirAll s path perm =
           (case (if length (MkdirAll_parent path) > 0
                  then MkdirAll s (MkdirAll_parent path) perm else (None, s)) of
              (Some err, s1) \<Rightarrow> (Some err, s1)
            | (None, s1) \<Rightarrow>
                (case Mkdir s1 path perm of
                   (Some err, s2) \<Rightarrow>
                     (case Lstat s2 path of
                        Inr (Dir md) \<Rightarrow> (None, s2)
                      | _ \<Rightarrow> (Some err, s2))
                 | (None, s2) \<Rightarrow> (None, s2)))"
  by (subst MkdirAll.simps) (simp only: assms sum.case)

lemma MkdirAll_creates:
  assumes "MkdirAll s path perm = (None, t)"
  shows "\<exists>md. Stat t path = Inr (Dir md)"
proof (cases "Stat s path")
  case (Inr n)
  with assms show ?thesis
    by (cases n) (simp_all add: MkdirAll.simps [of s path perm])
next
  case (Inl e0)
  obtain e1 s1 where r: "(if length (MkdirAll_parent path) > 0
                  then MkdirAll s (MkdirAll_parent path) perm else (None, s)) = (e1, s1)"
    by (cases "if length (MkdirAll_parent path) > 0
                  then MkdirAll s (MkdirAll_parent path) perm else (None, s)") auto
  obtain e2 s2 where mk: "Mkdir s1 path perm = (e2, s2)"
    by (cases "Mkdir s1 path perm") auto
  from assms have e1: "e1 = None"
    unfolding MkdirAll_unfold_slow [OF Inl] r by (cases e1) simp_all
  show ?thesis
  proof (cases e2)
    case None
    with assms e1 have t: "t = s2"
      unfolding MkdirAll_unfold_slow [OF Inl] r by (simp add: mk)
    from Mkdir_creates [OF mk [unfolded None]]
    have L: "Lstat s2 path = Inr (Dir (perm AND NOT (umask s1)))"
      by blast
    show ?thesis
      unfolding t Stat_def L by simp
  next
    case (Some err)
    with assms e1 have "t = s2 \<and> (\<exists>md. Lstat s2 path = Inr (Dir md))"
      unfolding MkdirAll_unfold_slow [OF Inl] r
      by (auto simp: mk split: sum.splits node.splits)
    then show ?thesis
      by (auto simp: Stat_def)
  qed
qed

lemma open_node_exists:
  assumes "open_node s k flag perm = Inr m" and "writable flag"
  shows "\<exists>md d. walk m [] k = Inr (File md d)"
proof -
  from open_node_file [OF assms] obtain md d where f: "m k = Some (File md d)"
    by blast
  from assms have p: "parent_dir (fs s) k = None"
    by (auto simp: open_node_def split: option.splits)
  have k: "k \<noteq> []"
  proof
    assume "k = []"
    with assms show False
      by (simp add: open_node_def node_at_def split: option.splits)
  qed
  from assms have "m = fs s \<or> (\<exists>v. m = (fs s)(k \<mapsto> v))"
    by (auto simp: open_node_def split: option.splits node.splits if_splits)
  with p k have "parent_dir m k = None"
    by (auto simp: parent_dir_upd)
  from walk_last [OF k this] f show ?thesis
    by simp
qed

lemma OpenFile_log_exists:
  assumes "OpenFile s name (O_APPEND OR O_CREATE OR O_WRONLY) perm = ((f, None), t)"
  shows "\<exists>md d. Stat t name = Inr (File md d)"
proof (cases rule: OpenFile_cases [of s name "O_APPEND OR O_CREATE OR O_WRONLY" perm])
  case (error e)
  with assms show ?thesis
    by simp
next
  case (opened m)
  from open_node_exists [OF opened(3) log_flags_writable]
  obtain md d where "walk m [] (key_of s name) = Inr (File md d)"
    by blast
  moreover from opened(1) assms have "fs t = m" "key_of t name = key_of s name"
    by (auto simp: key_of_def)
  ultimately show ?thesis
    using opened(2) by (simp add: Stat_def Lstat_def)
qed

lemma Lstat_environ: "Lstat (s\<lparr>environ := e\<rparr>) name = Lstat s name"
  by (simp add: Lstat_def key_of_def)

lemma Stat_environ: "Stat (s\<lparr>environ := e\<rparr>) name = Stat s name"
  by (simp add: Stat_def Lstat_environ)

lemma Mkdir_environ:
  "Mkdir (s\<lparr>environ := e\<rparr>) name perm
     = (fst (Mkdir s name perm), (snd (Mkdir s name perm))\<lparr>environ := e\<rparr>)"
  by (simp add: Mkdir_def Let_def key_of_def split: option.splits)

lemma MkdirAll_environ:
  "MkdirAll (s\<lparr>environ := e\<rparr>) path perm
     = (fst (MkdirAll s path perm), (snd (MkdirAll s path perm))\<lparr>environ := e\<rparr>)"
proof (induction s path perm rule: MkdirAll.induct)
  case (1 s path perm)
  show ?case
  proof (cases "Stat s path")
    case (Inr n)
    then show ?thesis
      by (simp add: MkdirAll.simps [of s path perm] MkdirAll.simps [of "s\<lparr>environ := e\<rparr>" path perm]
            Stat_environ)
  next
    case (Inl e0)
    then have Inl': "Stat (s\<lparr>environ := e\<rparr>) path = Inl e0"
      by (simp add: Stat_environ)
    let ?r = "if length (MkdirAll_parent path) > 0
              then MkdirAll s (MkdirAll_parent path) perm else (None, s)"
    let ?r' = "if length (MkdirAll_parent path) > 0
               then MkdirAll (s\<lparr>environ := e\<rparr>) (MkdirAll_parent path) perm
               else (None, s\<lparr>environ := e\<rparr>)"
    have r': "?r' = (fst ?r, (snd ?r)\<lparr>environ := e\<rparr>)"
      using "1.IH" [OF Inl] by simp
    obtain e1 s1 where r: "?r = (e1, s1)"
      by (cases ?r) auto
    obtain e2 s2 where mk: "Mkdir s1 path perm = (e2, s2)"
      by (cases "Mkdir s1 path perm") auto
    have mk': "Mkdir (s1\<lparr>environ := e\<rparr>) path perm = (e2, s2\<lparr>environ := e\<rparr>)"
      by (simp add: Mkdir_environ mk)
    show ?thesis
      unfolding MkdirAll_unfold_slow [OF Inl] MkdirAll_unfold_slow [OF Inl'] r' r
      by (cases e1; cases e2)
         (simp_all add: mk mk' Lstat_environ split: sum.splits node.splits)
  qed
qed

lemma MkdirAll_new_entries:
  "fs (snd (MkdirAll s path perm)) k = Some n \<Longrightarrow> fs s k = None \<Longrightarrow>
   n = Dir (perm AND NOT (umask s))"
proof (induction s path perm rule: MkdirAll.induct)
  case (1 s path perm)
  show ?case
  proof (cases "Stat s path")
    case (Inr n')
    then have "snd (MkdirAll s path perm) = s"
      by (simp add: MkdirAll.simps [of s path perm])
    with "1.prems" show ?thesis
      by simp
  next
    case (Inl e0)
    let ?r = "if length (MkdirAll_parent path) > 0
              then MkdirAll s (MkdirAll_parent path) perm else (None, s)"
    obtain e1 s1 where r: "?r = (e1, s1)"
      by (cases ?r) auto
    obtain e2 s2 where mk: "Mkdir s1 path perm = (e2, s2)"
      by (cases "Mkdir s1 path perm") auto
    have um: "umask s1 = umask s"
    proof (cases "length (MkdirAll_parent path) > 0")
      case True
      with r MkdirAll_frame [of s "MkdirAll_parent path" perm] show ?thesis
        by auto
    next
      case False
      with r show ?thesis
        by simp
    qed
    have s1: "fs s1 k = Some n \<Longrightarrow> n = Dir (perm AND NOT (umask s))"
    proof (cases "length (MkdirAll_parent path) > 0")
      case True
      assume "fs s1 k = Some n"
      with True r "1.IH" [OF Inl True] "1.prems"(2) show ?thesis
        by simp
    next
      case False
      assume "fs s1 k = Some n"
      with False r "1.prems"(2) show ?thesis
        by simp
    qed
    have fin: "snd (MkdirAll s path perm) = s1 \<or> snd (MkdirAll s path perm) = s2"
      unfolding MkdirAll_unfold_slow [OF Inl] r
      by (cases e1; cases e2) (auto simp: mk split: sum.splits node.splits)
    have s2: "fs s2 k = Some n \<Longrightarrow> n = Dir (perm AND NOT (umask s))"
    proof (cases e2)
      case None
      assume a: "fs s2 k = Some n"
      from Mkdir_creates [OF mk [unfolded None]]
      have "s2 = s1\<lparr>fs := (fs s1)(key_of s1 path \<mapsto> Dir (perm AND NOT (umask s1)))\<rparr>"
        by blast
      with a s1 um show ?thesis
        by (cases "k = key_of s1 path") simp_all
    next
      case (Some err)
      assume a: "fs s2 k = Some n"
      from Mkdir_error_keeps [OF mk [unfolded Some]] a s1 show ?thesis
        by simp
    qed
    from fin "1.prems"(1) s1 s2 show ?thesis
      by auto
  qed
qed

lemma spec_base_override: "environ s ''XDG_STATE_HOME'' = Some v \<Longrightarrow> spec_base s = Inr v"
  by (simp add: spec_base_def)

lemma spec_base_home:
  "environ s ''XDG_STATE_HOME'' = None \<Longrightarrow> spec_base s = Inr base \<Longrightarrow>
   Getenv s ''HOME'' \<noteq> [] \<and> base = Join [Getenv s ''HOME'', ''.local/state'']"
  by (auto simp: spec_base_def UserHomeDir_def Let_def split: if_splits)

lemma plain_names: "plain_elem jasmDir" "plain_elem fileLog" "plain_elem clientsLogFile"
  by (simp_all add: plain_elem_def jasmDir_def fileLog_def clientsLogFile_def)

lemma IsAbs_home_base: "home \<noteq> [] \<Longrightarrow> IsAbs (Join [home, ''.local/state'']) = IsAbs home"
  by (cases home) (simp_all add: Join.simps IsAbs_Clean, simp add: IsAbs_def)

lemma log_names_differ: "Join [d, clientsLogFile] \<noteq> Join [d, fileLog]"
proof
  assume eq: "Join [d, clientsLogFile] = Join [d, fileLog]"
  let ?p = "Join [d, fileLog]"
  from Join_last_elem [OF plain_names(2), of d]
  have a: "?p = fileLog \<or> suffix (CHR ''/'' # fileLog) ?p" .
  from Join_last_elem [OF plain_names(3), of d] eq
  have b: "?p = clientsLogFile \<or> suffix (CHR ''/'' # clientsLogFile) ?p"
    by simp
  have ne: "fileLog \<noteq> clientsLogFile"
    "\<not> suffix (CHR ''/'' # clientsLogFile) fileLog"
    "\<not> suffix (CHR ''/'' # fileLog) clientsLogFile"
    "\<not> suffix (CHR ''/'' # clientsLogFile) (CHR ''/'' # fileLog)"
    "\<not> suffix (CHR ''/'' # fileLog) (CHR ''/'' # clientsLogFile)"
    by (simp_all add: fileLog_def clientsLogFile_def suffix_Cons)
  from a b show False
  proof (elim disjE)
    assume "?p = fileLog" "?p = clientsLogFile"
    with ne(1) show False
      by simp
  next
    assume "?p = fileLog" "suffix (CHR ''/'' # clientsLogFile) ?p"
    with ne(2) show False
      by simp
  next
    assume "suffix (CHR ''/'' # fileLog) ?p" "?p = clientsLogFile"
    with ne(3) show False
      by simp
  next
    assume "suffix (CHR ''/'' # fileLog) ?p" "suffix (CHR ''/'' # clientsLogFile) ?p"
    then have "suffix (CHR ''/'' # fileLog) (CHR ''/'' # clientsLogFile) \<or>
               suffix (CHR ''/'' # clientsLogFile) (CHR ''/'' # fileLog)"
      by (rule suffix_same_cases)
    with ne(4,5) show False
      by blast
  qed
qed

lemma spec_create_eq:
  "spec_create s path =
     (case MkdirAll s path (oct 7 0 0) of
        (None, s') \<Rightarrow> (None, s')
      | (Some err, s') \<Rightarrow> if IsExist (Some err) then (None, s') else (Some err, s'))"
proof -
  obtain e s' where mk: "MkdirAll s path (oct 7 0 0) = (e, s')"
    by (cases "MkdirAll s path (oct 7 0 0)") auto
  show ?thesis
  proof (cases e)
    case None
    with mk show ?thesis
      by (simp add: spec_create_def)
  next
    case (Some err)
    with mk show ?thesis
      by (cases err; cases "case err of PathError op p c \<Rightarrow> c | _ \<Rightarrow> ENOENT")
         (simp_all add: spec_create_def)
  qed
qed

lemma InitClientLog_setStateDir_error:
  "setStateDir s = ((p, Some e), s1) \<Longrightarrow> InitClientLog s = ((None, Some (fmt_Errorf [] e)), s1)"
  by (simp add: InitClientLog_def)

lemma InitClientLog_open:
  "setStateDir s = ((p, None), s1) \<Longrightarrow>
   OpenFile s1 (Join [p, clientsLogFile]) (O_APPEND OR O_CREATE OR O_WRONLY) (oct 6 6 6)
     = ((f, e), s2) \<Longrightarrow>
   InitClientLog s =
     (case e of
        Some err \<Rightarrow> ((None, Some (fmt_Errorf ''open nsmclients logFile: '' err)), s2)
      | None \<Rightarrow> ((f, None), s2))"
  by (simp add: InitClientLog_def Let_def split: option.splits)

lemma log_flags_write_only:
  "(O_APPEND OR O_CREATE OR O_WRONLY) AND (O_WRONLY OR O_RDWR) = O_WRONLY"
  by (simp add: O_APPEND_def O_CREATE_def O_WRONLY_def O_RDWR_def)

subsection \<open>Evaluating the examples\<close>

lemmas eval_defs =
  LookupEnv_def Getenv_def UserHomeDir_def xdgStateEnv_def xdgStateDefault_def
  jasmDir_def fileLog_def clientsLogFile_def
  Join.simps Clean_def IsPathSeparator_def IsAbs_def key_of_def unwind.simps
  Stat_def Lstat_def node_at_def parent_dir_def Mkdir_def MkdirAll.simps
  MkdirAll_parent_def oct_def open_node_def OpenFile_def has_flag_def writable_def
  O_APPEND_def O_CREATE_def O_WRONLY_def O_RDWR_def O_EXCL_def O_TRUNC_def

lemma InitLog_fresh:
  "InitLog fresh =
     ((Some 0, None),
      fresh\<lparr>fs := (fs fresh)
               ([''home'', ''u'', ''.local''] \<mapsto> Dir (oct 7 0 0),
                [''home'', ''u'', ''.local'', ''state''] \<mapsto> Dir (oct 7 0 0),
                [''home'', ''u'', ''.local'', ''state'', ''jasm''] \<mapsto> Dir (oct 7 0 0),
                [''home'', ''u'', ''.local'', ''state'', ''jasm'', ''jasmd.log'']
                   \<mapsto> File (oct 6 4 4) []),
            files := [\<lparr>f_key = [''home'', ''u'', ''.local'', ''state'', ''jasm'', ''jasmd.log''],
                       f_name = ''/home/u/.local/state/jasm/jasmd.log'',
                       f_flag = O_APPEND OR O_CREATE OR O_WRONLY, f_off = 0,
                       f_closed = False\<rparr>],
            info := Some \<lparr>l_out = Multi [Stderr, FileSink (Some 0)], l_prefix = ''[jasmd] '',
                           l_flag = 0\<rparr>,
            warn := Some \<lparr>l_out = Multi [Stderr, FileSink (Some 0)], l_prefix = ''WARNING: '',
                           l_flag = Ldate OR Ltime OR Lshortfile\<rparr>,
            dbg := Some \<lparr>l_out = Multi [Stderr, FileSink (Some 0)], l_prefix = ''DEBUG: '',
                          l_flag = Ldate OR Ltime OR Lshortfile\<rparr>,
            errorl := Some \<lparr>l_out = Multi [Stderr, FileSink (Some 0)], l_prefix = ''ERROR: '',
                             l_flag = Ldate OR Ltime OR Lshortfile\<rparr>\<rparr>)"
  by (simp add: InitLog_def setStateDir_def fresh_def eval_defs Let_def log_New_def MultiWriter_def)

lemma running_loggers:
  "info running = Some (bound_logger (Some 0) ''[jasmd] '' 0)"
  "warn running = Some (bound_logger (Some 0) ''WARNING: '' (Ldate OR Ltime OR Lshortfile))"
  "dbg running = Some (bound_logger (Some 0) ''DEBUG: '' (Ldate OR Ltime OR Lshortfile))"
  "errorl running = Some (bound_logger (Some 0) ''ERROR: '' (Ldate OR Ltime OR Lshortfile))"
  "Debug running" "stderr running = []" "files fresh = []"
  by (simp_all add: running_def InitLog_fresh bound_logger_def, simp_all add: fresh_def)

lemma InitLog_running_denied:
  "InitLog running_denied =
     ((None, Some (ErrorString
        ''open logFile: open /home/u/.local/state/jasm/jasmd.log: permission denied'')),
      running_denied)"
  by (simp add: running_denied_def running_def InitLog_fresh,
      simp add: InitLog_def setStateDir_def fresh_def eval_defs Let_def fmt_Errorf_def)

lemma InitLog_fresh_no_home:
  "InitLog fresh_no_home = ((None, Some (ErrorString ''$HOME is not defined'')), fresh_no_home)"
  by (simp add: InitLog_def setStateDir_def LookupEnv_def UserHomeDir_def Getenv_def
        fresh_no_home_def fresh_def fmt_Errorf_def)

lemma setStateDir_fresh:
  "setStateDir fresh =
     ((''/home/u/.local/state/jasm'', None),
      fresh\<lparr>fs := (fs fresh)
               ([''home'', ''u'', ''.local''] \<mapsto> Dir (oct 7 0 0),
                [''home'', ''u'', ''.local'', ''state''] \<mapsto> Dir (oct 7 0 0),
                [''home'', ''u'', ''.local'', ''state'', ''jasm''] \<mapsto> Dir (oct 7 0 0))\<rparr>)"
  by (simp add: setStateDir_def fresh_def eval_defs Let_def)

lemma setStateDir_fresh_xdg_empty: "fst (setStateDir fresh_xdg_empty) = (''jasm'', None)"
  by (simp add: setStateDir_def fresh_xdg_empty_def fresh_def eval_defs Let_def)

lemma setStateDir_dangling_link:
  "fst (setStateDir fresh_dangling) = (''/home/u/.local/state/jasm'', None) \<and>
   Stat (snd (setStateDir fresh_dangling)) ''/home/u/.local/state/jasm'' = Inl ENOENT"
  by (simp add: setStateDir_def fresh_dangling_def fresh_def eval_defs Let_def)

lemma InitClientLog_fresh:
  "fst (InitClientLog fresh) = (Some 0, None)"
  by (simp add: InitClientLog_def setStateDir_fresh,
      simp add: fresh_def eval_defs Let_def)

section \<open>The claims\<close>

subsection \<open>Logging without loggers\<close>

text \<open>
  Claim C1. For every message template and argument list, a logging function whose
  logger variable is \<open>nil\<close> returns at once: it does not panic and the state after it is
  the state before it, so nothing has reached standard error or any file. The variables
  are \<open>nil\<close> when the process starts, and an \<open>InitLog\<close> that fails leaves them as they
  were, so this is the case as long as no \<open>InitLog\<close> has succeeded.
\<close>

theorem uninitialized_logging_is_noop:
  "(dbg s = None \<longrightarrow> Debugf Sprintf s message args = Done s) \<and>
   (info s = None \<longrightarrow> Infof Sprintf s message args = Done s) \<and>
   (warn s = None \<longrightarrow> Warnf Sprintf s message args = Done s) \<and>
   (errorl s = None \<longrightarrow> Errorf Sprintf s message args = Done s) \<and>
   (snd (fst (InitLog s)) \<noteq> None \<longrightarrow> same_loggers s (snd (InitLog s)))"
proof -
  have "snd (fst (InitLog s)) \<noteq> None \<longrightarrow> same_loggers s (snd (InitLog s))"
    using InitLog_failure [of s] by blast
  then show ?thesis
    by (simp add: Debugf_def Infof_def Warnf_def Errorf_def)
qed

theorem uninitialized_logging_is_noop_witness:
  "dbg fresh_no_home = None \<and> info fresh_no_home = None \<and> warn fresh_no_home = None \<and>
   errorl fresh_no_home = None \<and> snd (fst (InitLog fresh_no_home)) \<noteq> None \<and>
   Debugf Sprintf_s fresh_no_home ''x=%s'' [''1''] = Done fresh_no_home \<and>
   Infof Sprintf_s fresh_no_home ''x=%s'' [''1''] = Done fresh_no_home \<and>
   Warnf Sprintf_s fresh_no_home ''x=%s'' [''1''] = Done fresh_no_home \<and>
   Errorf Sprintf_s fresh_no_home ''x=%s'' [''1''] = Done fresh_no_home \<and>
   same_loggers fresh_no_home (snd (InitLog fresh_no_home))"
proof -
  have nil: "dbg fresh_no_home = None \<and> info fresh_no_home = None \<and>
             warn fresh_no_home = None \<and> errorl fresh_no_home = None"
    by (simp add: fresh_no_home_def fresh_def)
  have fails: "snd (fst (InitLog fresh_no_home)) \<noteq> None"
    by (simp add: InitLog_def setStateDir_def LookupEnv_def UserHomeDir_def Getenv_def
          fresh_no_home_def fresh_def)
  from nil fails
    uninitialized_logging_is_noop [of fresh_no_home Sprintf_s "''x=%s''" "[''1'']"]
  show ?thesis
    by simp
qed

subsection \<open>The accessor of the error logger\<close>

text \<open>
  Claim C8. \<open>ErrorLogger\<close> never returns \<open>nil\<close>. When the variable \<open>errorl\<close> holds a
  logger it returns that logger; otherwise it returns a new logger on \<open>io.Discard\<close>, whose
  \<open>Output\<close> leaves every state as it is. In both cases a call of \<open>Output\<close> through the
  result does not panic, so no caller needs to test the result first.
\<close>

theorem ErrorLogger_never_nil:
  "ErrorLogger s \<noteq> None \<and>
   (errorl s \<noteq> None \<longrightarrow> ErrorLogger s = errorl s) \<and>
   (errorl s = None \<longrightarrow>
      ErrorLogger s = log_New (Single Discard) [] LstdFlags \<and>
      Logger_Output t (ErrorLogger s) calldepth msg = Done (None, t)) \<and>
   Logger_Output t (ErrorLogger s) calldepth msg \<noteq> Panic"
  by (auto simp: ErrorLogger_def log_New_def Logger_Output_def split: if_splits)

theorem ErrorLogger_never_nil_witness:
  "errorl fresh = None \<and>
   ErrorLogger fresh = log_New (Single Discard) [] LstdFlags \<and>
   Logger_Output running (ErrorLogger fresh) 2 ''lost'' = Done (None, running) \<and>
   errorl running \<noteq> None \<and> ErrorLogger running = errorl running"
proof -
  have a: "errorl fresh = None"
    by (simp add: fresh_def)
  have b: "errorl running \<noteq> None"
    by (simp add: running_def InitLog_def setStateDir_def fresh_def eval_defs Let_def log_New_def)
  from a b ErrorLogger_never_nil [of fresh running 2 "''lost''"]
    ErrorLogger_never_nil [of running running 2 "''lost''"]
  show ?thesis
    by blast
qed


subsection \<open>Template and arguments\<close>

text \<open>
  Claim C6. Each of \<open>Debugf\<close>, \<open>Infof\<close>, \<open>Warnf\<close> and \<open>Errorf\<close>, when its logger is
  there (and, for \<open>Debugf\<close>, the toggle is on), hands to the logger's \<open>Output\<close> the
  template itself when there are no arguments, also when the template holds substitution
  markers, and \<open>Sprintf\<close> of the template and the arguments when there is at least one
  argument. \<open>Output\<close> puts that message, unchanged, into the line it writes, and with a
  logger made by \<open>InitLog\<close> this line is what standard error receives.
\<close>

theorem template_verbatim_or_formatted:
  "(dbg s = Some l \<and> Debug s \<longrightarrow>
      Debugf Sprintf s template [] = map_outcome snd (Logger_Output s (Some l) 2 template) \<and>
      (args \<noteq> [] \<longrightarrow> Debugf Sprintf s template args
         = map_outcome snd (Logger_Output s (Some l) 2 (Sprintf template args)))) \<and>
   (info s = Some l \<longrightarrow>
      Infof Sprintf s template [] = map_outcome snd (Logger_Output s (Some l) 1 template) \<and>
      (args \<noteq> [] \<longrightarrow> Infof Sprintf s template args
         = map_outcome snd (Logger_Output s (Some l) 1 (Sprintf template args)))) \<and>
   (warn s = Some l \<longrightarrow>
      Warnf Sprintf s template [] = map_outcome snd (Logger_Output s (Some l) 2 template) \<and>
      (args \<noteq> [] \<longrightarrow> Warnf Sprintf s template args
         = map_outcome snd (Logger_Output s (Some l) 2 (Sprintf template args)))) \<and>
   (errorl s = Some l \<longrightarrow>
      Errorf Sprintf s template [] = map_outcome snd (Logger_Output s (Some l) 2 template) \<and>
      (args \<noteq> [] \<longrightarrow> Errorf Sprintf s template args
         = map_outcome snd (Logger_Output s (Some l) 2 (Sprintf template args)))) \<and>
   (l_out l = Multi [Stderr, FileSink f] \<longrightarrow>
      stderr_after (map_outcome snd (Logger_Output s (Some l) calldepth msg))
        = stderr s @ log_line s l calldepth msg) \<and>
   (\<exists>pre post. log_line s l calldepth msg = pre @ msg @ post)"
proof -
  have d: "dbg s = Some l \<and> Debug s \<longrightarrow>
      Debugf Sprintf s template [] = map_outcome snd (Logger_Output s (Some l) 2 template) \<and>
      (args \<noteq> [] \<longrightarrow> Debugf Sprintf s template args
         = map_outcome snd (Logger_Output s (Some l) 2 (Sprintf template args)))"
    by (simp add: Debugf_unfold formatted_def)
  have i: "info s = Some l \<longrightarrow>
      Infof Sprintf s template [] = map_outcome snd (Logger_Output s (Some l) 1 template) \<and>
      (args \<noteq> [] \<longrightarrow> Infof Sprintf s template args
         = map_outcome snd (Logger_Output s (Some l) 1 (Sprintf template args)))"
    by (simp add: Infof_unfold formatted_def)
  have w: "warn s = Some l \<longrightarrow>
      Warnf Sprintf s template [] = map_outcome snd (Logger_Output s (Some l) 2 template) \<and>
      (args \<noteq> [] \<longrightarrow> Warnf Sprintf s template args
         = map_outcome snd (Logger_Output s (Some l) 2 (Sprintf template args)))"
    by (simp add: Warnf_unfold formatted_def)
  have e: "errorl s = Some l \<longrightarrow>
      Errorf Sprintf s template [] = map_outcome snd (Logger_Output s (Some l) 2 template) \<and>
      (args \<noteq> [] \<longrightarrow> Errorf Sprintf s template args
         = map_outcome snd (Logger_Output s (Some l) 2 (Sprintf template args)))"
    by (simp add: Errorf_unfold formatted_def)
  have o: "l_out l = Multi [Stderr, FileSink f] \<longrightarrow>
      stderr_after (map_outcome snd (Logger_Output s (Some l) calldepth msg))
        = stderr s @ log_line s l calldepth msg"
    using Output_bound_stderr by blast
  from d i w e o log_line_contains [of s l calldepth msg] show ?thesis
    by blast
qed

theorem template_verbatim_or_formatted_witness:
  "info running = Some (bound_logger (Some 0) ''[jasmd] '' 0) \<and>
   l_out (bound_logger (Some 0) ''[jasmd] '' 0) = Multi [Stderr, FileSink (Some 0)] \<and>
   [''world''] \<noteq> [] \<and>
   stderr_after (Infof Sprintf_s running ''load 100%s'' []) = ''[jasmd] load 100%s\<newline>'' \<and>
   stderr_after (Infof Sprintf_s running ''hello %s'' [''world'']) = ''[jasmd] hello world\<newline>'' \<and>
   warn running = Some (bound_logger (Some 0) ''WARNING: '' (Ldate OR Ltime OR Lshortfile)) \<and>
   stderr_after (Warnf Sprintf_s running ''disk %s'' [''full''])
     = ''WARNING: 2024/03/09 07:05:01 main.go:42: disk full\<newline>'' \<and>
   errorl running = Some (bound_logger (Some 0) ''ERROR: '' (Ldate OR Ltime OR Lshortfile)) \<and>
   stderr_after (Errorf Sprintf_s running ''bad %s'' [])
     = ''ERROR: 2024/03/09 07:05:01 main.go:42: bad %s\<newline>'' \<and>
   dbg running = Some (bound_logger (Some 0) ''DEBUG: '' (Ldate OR Ltime OR Lshortfile)) \<and>
   Debug running \<and>
   stderr_after (Debugf Sprintf_s running ''n=%s'' [''3''])
     = ''DEBUG: 2024/03/09 07:05:01 main.go:42: n=3\<newline>''"
proof -
  let ?i = "bound_logger (Some 0) ''[jasmd] '' 0"
  let ?w = "bound_logger (Some 0) ''WARNING: '' (Ldate OR Ltime OR Lshortfile)"
  let ?e = "bound_logger (Some 0) ''ERROR: '' (Ldate OR Ltime OR Lshortfile)"
  let ?d = "bound_logger (Some 0) ''DEBUG: '' (Ldate OR Ltime OR Lshortfile)"
  have out: "l_out ?i = Multi [Stderr, FileSink (Some 0)]" "l_out ?w = Multi [Stderr, FileSink (Some 0)]"
    "l_out ?e = Multi [Stderr, FileSink (Some 0)]" "l_out ?d = Multi [Stderr, FileSink (Some 0)]"
    by (simp_all add: bound_logger_def)
  have stamp: "date_stamp (now running) = ''2024/03/09''" "time_stamp (now running) = ''07:05:01''"
    "call_site running 2 = ''main.go:42''"
  proof -
    have n: "now running = clock0" "caller running 2 = Some (''/src/app/main.go'', 42)"
      by (simp_all add: running_def InitLog_fresh, simp_all add: fresh_def)
    have "date_stamp clock0 = ''2024/03/09''"
      by code_simp
    with n show "date_stamp (now running) = ''2024/03/09''"
      by simp
    have "time_stamp clock0 = ''07:05:01''"
      by code_simp
    with n show "time_stamp (now running) = ''07:05:01''"
      by simp
    have "short_name ''/src/app/main.go'' @ '':'' @ itoa 42 (- 1) = ''main.go:42''"
      by code_simp
    with n show "call_site running 2 = ''main.go:42''"
      by (simp add: call_site_def)
  qed
  have l1: "log_line running ?i 1 ''load 100%s'' = ''[jasmd] load 100%s\<newline>''"
    "log_line running ?i 1 (Sprintf_s ''hello %s'' [''world'']) = ''[jasmd] hello world\<newline>''"
    by (simp_all add: log_line_plain bound_logger_def ensure_newline_def)
  have l2: "log_line running ?w 2 (Sprintf_s ''disk %s'' [''full''])
              = ''WARNING: 2024/03/09 07:05:01 main.go:42: disk full\<newline>''"
    "log_line running ?e 2 ''bad %s'' = ''ERROR: 2024/03/09 07:05:01 main.go:42: bad %s\<newline>''"
    "log_line running ?d 2 (Sprintf_s ''n=%s'' [''3''])
              = ''DEBUG: 2024/03/09 07:05:01 main.go:42: n=3\<newline>''"
    by (simp_all add: log_line_stamped bound_logger_def stamp ensure_newline_def)
  note t = template_verbatim_or_formatted
  from running_loggers out l1
    t [of running ?i Sprintf_s "''load 100%s''" "[''world'']" "Some 0" 1 "''load 100%s''"]
    t [of running ?i Sprintf_s "''hello %s''" "[''world'']" "Some 0" 1
          "Sprintf_s ''hello %s'' [''world'']"]
  have a: "stderr_after (Infof Sprintf_s running ''load 100%s'' []) = ''[jasmd] load 100%s\<newline>''"
    "stderr_after (Infof Sprintf_s running ''hello %s'' [''world'']) = ''[jasmd] hello world\<newline>''"
    by simp_all
  from running_loggers out l2
    t [of running ?w Sprintf_s "''disk %s''" "[''full'']" "Some 0" 2
          "Sprintf_s ''disk %s'' [''full'']"]
    t [of running ?e Sprintf_s "''bad %s''" "[]" "Some 0" 2 "''bad %s''"]
    t [of running ?d Sprintf_s "''n=%s''" "[''3'']" "Some 0" 2 "Sprintf_s ''n=%s'' [''3'']"]
  have b: "stderr_after (Warnf Sprintf_s running ''disk %s'' [''full''])
     = ''WARNING: 2024/03/09 07:05:01 main.go:42: disk full\<newline>''"
    "stderr_after (Errorf Sprintf_s running ''bad %s'' [])
     = ''ERROR: 2024/03/09 07:05:01 main.go:42: bad %s\<newline>''"
    "stderr_after (Debugf Sprintf_s running ''n=%s'' [''3''])
     = ''DEBUG: 2024/03/09 07:05:01 main.go:42: n=3\<newline>''"
    by simp_all
  from a b running_loggers out show ?thesis
    by simp
qed


subsection \<open>The debug toggle\<close>

text \<open>
  Claim C7. While the toggle \<open>Debug\<close> is false, \<open>Debugf\<close> returns the state as it found
  it, whatever the logger variables hold. After a successful \<open>InitLog\<close> and with the
  toggle true, \<open>Debugf\<close> returns and its line has reached standard error and the log
  file. \<open>Infof\<close>, \<open>Warnf\<close> and \<open>Errorf\<close> do the same whatever the toggle is: setting it
  before the call or after the call gives the same state.
\<close>

theorem debug_toggle_gates_only_Debugf:
  "(\<not> Debug s \<longrightarrow> Debugf Sprintf s message args = Done s) \<and>
   (InitLog s = ((f, None), t) \<longrightarrow>
      (\<exists>u. Debugf Sprintf (t\<lparr>Debug := True\<rparr>) message args = Done u \<and>
           emitted (t\<lparr>Debug := True\<rparr>) u (length (files s))
             (log_line t (bound_logger f ''DEBUG: '' (Ldate OR Ltime OR Lshortfile)) 2
                (formatted Sprintf message args)))) \<and>
   Infof Sprintf (s\<lparr>Debug := b\<rparr>) message args
     = map_outcome (\<lambda>u. u\<lparr>Debug := b\<rparr>) (Infof Sprintf s message args) \<and>
   Warnf Sprintf (s\<lparr>Debug := b\<rparr>) message args
     = map_outcome (\<lambda>u. u\<lparr>Debug := b\<rparr>) (Warnf Sprintf s message args) \<and>
   Errorf Sprintf (s\<lparr>Debug := b\<rparr>) message args
     = map_outcome (\<lambda>u. u\<lparr>Debug := b\<rparr>) (Errorf Sprintf s message args)"
proof -
  have off: "\<not> Debug s \<longrightarrow> Debugf Sprintf s message args = Done s"
    by (simp add: Debugf_def)
  have on: "InitLog s = ((f, None), t) \<longrightarrow>
      (\<exists>u. Debugf Sprintf (t\<lparr>Debug := True\<rparr>) message args = Done u \<and>
           emitted (t\<lparr>Debug := True\<rparr>) u (length (files s))
             (log_line t (bound_logger f ''DEBUG: '' (Ldate OR Ltime OR Lshortfile)) 2
                (formatted Sprintf message args)))"
  proof
    assume i: "InitLog s = ((f, None), t)"
    let ?l = "bound_logger f ''DEBUG: '' (Ldate OR Ltime OR Lshortfile)"
    let ?t = "t\<lparr>Debug := True\<rparr>"
    note ok = InitLog_ok_bound [OF i]
    have dt: "Debug ?t" and dl: "dbg ?t = Some ?l"
      using ok(5) by simp_all
    have "log_ready ?t (length (files s)) = log_ready t (length (files s))"
      by (rule log_ready_cong) simp_all
    with ok(2) have lr: "log_ready ?t (length (files s))"
      by simp
    have out: "l_out ?l = Multi [Stderr, FileSink (Some (length (files s)))]"
      using ok(1) by (simp add: bound_logger_out)
    from Output_bound_emits [OF lr out, of 2 "formatted Sprintf message args"]
    show "\<exists>u. Debugf Sprintf ?t message args = Done u \<and>
           emitted ?t u (length (files s)) (log_line t ?l 2 (formatted Sprintf message args))"
      by (auto simp: Debugf_unfold [OF dl dt] log_line_Debug)
  qed
  from off on show ?thesis
    by (simp only: Infof_Debug Warnf_Debug Errorf_Debug simp_thms)
qed

theorem debug_toggle_gates_only_Debugf_witness:
  "\<not> Debug (snd (InitLog fresh)) \<and>
   Debugf Sprintf_s (snd (InitLog fresh)) ''n=%s'' [''3''] = Done (snd (InitLog fresh)) \<and>
   InitLog fresh = ((Some 0, None), snd (InitLog fresh)) \<and>
   (\<exists>u. Debugf Sprintf_s running ''n=%s'' [''3''] = Done u \<and>
        emitted running u 0 ''DEBUG: 2024/03/09 07:05:01 main.go:42: n=3\<newline>'')"
proof -
  have a: "\<not> Debug (snd (InitLog fresh))"
    by (simp add: InitLog_fresh, simp add: fresh_def)
  have b: "InitLog fresh = ((Some 0, None), snd (InitLog fresh))"
    by (simp add: InitLog_fresh)
  have n: "now (snd (InitLog fresh)) = clock0"
    "caller (snd (InitLog fresh)) 2 = Some (''/src/app/main.go'', 42)"
    by (simp_all add: InitLog_fresh, simp_all add: fresh_def)
  have "date_stamp clock0 = ''2024/03/09''" "time_stamp clock0 = ''07:05:01''"
    "short_name ''/src/app/main.go'' @ '':'' @ itoa 42 (- 1) = ''main.go:42''"
    by code_simp+
  with n have l: "log_line (snd (InitLog fresh))
                    (bound_logger (Some 0) ''DEBUG: '' (Ldate OR Ltime OR Lshortfile))
                    2 (formatted Sprintf_s ''n=%s'' [''3''])
                  = ''DEBUG: 2024/03/09 07:05:01 main.go:42: n=3\<newline>''"
    by (simp add: log_line_stamped bound_logger_def call_site_def ensure_newline_def
          formatted_def)
  have f0: "length (files fresh) = 0"
    by (simp add: fresh_def)
  from a b l f0
    debug_toggle_gates_only_Debugf [of "snd (InitLog fresh)" Sprintf_s "''n=%s''" "[''3'']"
       "Some 0" "snd (InitLog fresh)" True]
    debug_toggle_gates_only_Debugf [of fresh Sprintf_s "''n=%s''" "[''3'']"
       "Some 0" "snd (InitLog fresh)" True]
  show ?thesis
    by (simp add: running_def)
qed


subsection \<open>A successful InitLog\<close>

text \<open>
  Claim C5. After every successful call of \<open>InitLog\<close>, from whatever state (so also a
  second call, whose loggers replace the earlier ones), the handle returned is a new
  \<open>os.File\<close> object, open for appending on the log file in the state directory, and the
  four logger variables hold loggers on the combined writer of standard error and that
  file. The info logger has the tag \<open>[jasmd]\<close> and flag 0, so its line is the tag and the
  message; the warning, debug and error loggers have their tag and the flags for date,
  time and short file name, so their line is the tag, the date, the time, the file and
  line of the call, and the message.

  From then on, in every state \<open>v\<close> in which that file object is still open on its file:
  a write to the combined writer succeeds and appends the same bytes to standard error
  and to the log file; and a call of a logging function whose variable still holds the
  logger of this \<open>InitLog\<close> (for \<open>Debugf\<close>, with the toggle on) returns with its line
  appended to standard error and to the log file. After the write or the call the file
  object is still open on its file and the logger variables and the toggle are what they
  were, so the same holds for the call after it, and for every call until the file is
  closed or \<open>InitLog\<close> runs again.
\<close>

theorem InitLog_success_binds_loggers:
  assumes "InitLog s = ((f, None), t)"
  shows "f = Some (length (files s)) \<and> log_ready t (length (files s)) \<and>
     f_name (files t ! length (files s)) = Join [fst (fst (setStateDir s)), fileLog] \<and>
     info t = Some (bound_logger f ''[jasmd] '' 0) \<and>
     warn t = Some (bound_logger f ''WARNING: '' (Ldate OR Ltime OR Lshortfile)) \<and>
     dbg t = Some (bound_logger f ''DEBUG: '' (Ldate OR Ltime OR Lshortfile)) \<and>
     errorl t = Some (bound_logger f ''ERROR: '' (Ldate OR Ltime OR Lshortfile)) \<and>
     (log_ready v (length (files s)) \<longrightarrow>
        (\<exists>u. Writer_Write v (Multi [Stderr, FileSink f]) b = (None, u) \<and>
             emitted v u (length (files s)) b \<and>
             log_ready u (length (files s)) \<and> same_loggers v u)) \<and>
     log_line v (bound_logger f ''[jasmd] '' 0) calldepth msg
       = ensure_newline (''[jasmd] '' @ msg) \<and>
     log_line v (bound_logger f pre (Ldate OR Ltime OR Lshortfile)) calldepth msg
       = ensure_newline (pre @ date_stamp (now v) @ '' '' @ time_stamp (now v) @ '' ''
                         @ call_site v calldepth @ '': '' @ msg) \<and>
     (log_ready v (length (files s)) \<and> info v = info t \<longrightarrow>
        (\<exists>u. Infof Sprintf v msg args = Done u \<and>
             emitted v u (length (files s))
               (log_line v (bound_logger f ''[jasmd] '' 0) 1 (formatted Sprintf msg args)) \<and>
             log_ready u (length (files s)) \<and> same_loggers v u)) \<and>
     (log_ready v (length (files s)) \<and> warn v = warn t \<longrightarrow>
        (\<exists>u. Warnf Sprintf v msg args = Done u \<and>
             emitted v u (length (files s))
               (log_line v (bound_logger f ''WARNING: '' (Ldate OR Ltime OR Lshortfile)) 2
                  (formatted Sprintf msg args)) \<and>
             log_ready u (length (files s)) \<and> same_loggers v u)) \<and>
     (log_ready v (length (files s)) \<and> errorl v = errorl t \<longrightarrow>
        (\<exists>u. Errorf Sprintf v msg args = Done u \<and>
             emitted v u (length (files s))
               (log_line v (bound_logger f ''ERROR: '' (Ldate OR Ltime OR Lshortfile)) 2
                  (formatted Sprintf msg args)) \<and>
             log_ready u (length (files s)) \<and> same_loggers v u)) \<and>
     (log_ready v (length (files s)) \<and> dbg v = dbg t \<and> Debug v \<longrightarrow>
        (\<exists>u. Debugf Sprintf v msg args = Done u \<and>
             emitted v u (length (files s))
               (log_line v (bound_logger f ''DEBUG: '' (Ldate OR Ltime OR Lshortfile)) 2
                  (formatted Sprintf msg args)) \<and>
             log_ready u (length (files s)) \<and> same_loggers v u))"
proof -
  note ok = InitLog_ok_bound [OF assms]
  let ?h = "length (files s)"
  have out: "\<And>pre flag. l_out (bound_logger f pre flag) = Multi [Stderr, FileSink (Some ?h)]"
    using ok(1) by (simp add: bound_logger_out)
  have w: "log_ready v ?h \<longrightarrow>
        (\<exists>u. Writer_Write v (Multi [Stderr, FileSink f]) b = (None, u) \<and>
             emitted v u ?h b \<and> log_ready u ?h \<and> same_loggers v u)"
  proof
    assume r: "log_ready v ?h"
    from combined_Write [OF r, of b] ok(1)
    show "\<exists>u. Writer_Write v (Multi [Stderr, FileSink f]) b = (None, u) \<and>
             emitted v u ?h b \<and> log_ready u ?h \<and> same_loggers v u"
      by simp
  qed
  have l1: "log_line v (bound_logger f ''[jasmd] '' 0) calldepth msg
              = ensure_newline (''[jasmd] '' @ msg)"
    by (simp add: log_line_plain bound_logger_def)
  have l2: "log_line v (bound_logger f pre (Ldate OR Ltime OR Lshortfile)) calldepth msg
       = ensure_newline (pre @ date_stamp (now v) @ '' '' @ time_stamp (now v) @ '' ''
                         @ call_site v calldepth @ '': '' @ msg)"
    by (simp add: log_line_stamped bound_logger_def)
  have i: "log_ready v ?h \<and> info v = info t \<longrightarrow>
        (\<exists>u. Infof Sprintf v msg args = Done u \<and>
             emitted v u ?h
               (log_line v (bound_logger f ''[jasmd] '' 0) 1 (formatted Sprintf msg args)) \<and>
             log_ready u ?h \<and> same_loggers v u)"
  proof
    assume a: "log_ready v ?h \<and> info v = info t"
    then have r: "log_ready v ?h" and l: "info v = Some (bound_logger f ''[jasmd] '' 0)"
      using ok(3) by simp_all
    from Output_bound_emits [OF r out, of "''[jasmd] ''" 0 1 "formatted Sprintf msg args"]
    show "\<exists>u. Infof Sprintf v msg args = Done u \<and>
             emitted v u ?h
               (log_line v (bound_logger f ''[jasmd] '' 0) 1 (formatted Sprintf msg args)) \<and>
             log_ready u ?h \<and> same_loggers v u"
      by (simp add: Infof_unfold [OF l])
  qed
  have wn: "log_ready v ?h \<and> warn v = warn t \<longrightarrow>
        (\<exists>u. Warnf Sprintf v msg args = Done u \<and>
             emitted v u ?h
               (log_line v (bound_logger f ''WARNING: '' (Ldate OR Ltime OR Lshortfile)) 2
                  (formatted Sprintf msg args)) \<and>
             log_ready u ?h \<and> same_loggers v u)"
  proof
    assume a: "log_ready v ?h \<and> warn v = warn t"
    then have r: "log_ready v ?h"
      and l: "warn v = Some (bound_logger f ''WARNING: '' (Ldate OR Ltime OR Lshortfile))"
      using ok(4) by simp_all
    from Output_bound_emits [OF r out, of "''WARNING: ''" "Ldate OR Ltime OR Lshortfile" 2
            "formatted Sprintf msg args"]
    show "\<exists>u. Warnf Sprintf v msg args = Done u \<and>
             emitted v u ?h
               (log_line v (bound_logger f ''WARNING: '' (Ldate OR Ltime OR Lshortfile)) 2
                  (formatted Sprintf msg args)) \<and>
             log_ready u ?h \<and> same_loggers v u"
      by (simp add: Warnf_unfold [OF l])
  qed
  have e: "log_ready v ?h \<and> errorl v = errorl t \<longrightarrow>
        (\<exists>u. Errorf Sprintf v msg args = Done u \<and>
             emitted v u ?h
               (log_line v (bound_logger f ''ERROR: '' (Ldate OR Ltime OR Lshortfile)) 2
                  (formatted Sprintf msg args)) \<and>
             log_ready u ?h \<and> same_loggers v u)"
  proof
    assume a: "log_ready v ?h \<and> errorl v = errorl t"
    then have r: "log_ready v ?h"
      and l: "errorl v = Some (bound_logger f ''ERROR: '' (Ldate OR Ltime OR Lshortfile))"
      using ok(6) by simp_all
    from Output_bound_emits [OF r out, of "''ERROR: ''" "Ldate OR Ltime OR Lshortfile" 2
            "formatted Sprintf msg args"]
    show "\<exists>u. Errorf Sprintf v msg args = Done u \<and>
             emitted v u ?h
               (log_line v (bound_logger f ''ERROR: '' (Ldate OR Ltime OR Lshortfile)) 2
                  (formatted Sprintf msg args)) \<and>
             log_ready u ?h \<and> same_loggers v u"
      by (simp add: Errorf_unfold [OF l])
  qed
  have d: "log_ready v ?h \<and> dbg v = dbg t \<and> Debug v \<longrightarrow>
        (\<exists>u. Debugf Sprintf v msg args = Done u \<and>
             emitted v u ?h
               (log_line v (bound_logger f ''DEBUG: '' (Ldate OR Ltime OR Lshortfile)) 2
                  (formatted Sprintf msg args)) \<and>
             log_ready u ?h \<and> same_loggers v u)"
  proof
    assume a: "log_ready v ?h \<and> dbg v = dbg t \<and> Debug v"
    then have r: "log_ready v ?h" and dv: "Debug v"
      and l: "dbg v = Some (bound_logger f ''DEBUG: '' (Ldate OR Ltime OR Lshortfile))"
      using ok(5) by simp_all
    from Output_bound_emits [OF r out, of "''DEBUG: ''" "Ldate OR Ltime OR Lshortfile" 2
            "formatted Sprintf msg args"]
    show "\<exists>u. Debugf Sprintf v msg args = Done u \<and>
             emitted v u ?h
               (log_line v (bound_logger f ''DEBUG: '' (Ldate OR Ltime OR Lshortfile)) 2
                  (formatted Sprintf msg args)) \<and>
             log_ready u ?h \<and> same_loggers v u"
      by (simp add: Debugf_unfold [OF l dv])
  qed
  from ok(1,2,9,3,4,5,6) w l1 l2 i wn e d show ?thesis
    by blast
qed


theorem InitLog_success_binds_loggers_witness:
  "InitLog fresh = ((Some 0, None), snd (InitLog fresh)) \<and>
   info (snd (InitLog fresh)) = Some (bound_logger (Some 0) ''[jasmd] '' 0) \<and>
   errorl (snd (InitLog fresh))
     = Some (bound_logger (Some 0) ''ERROR: '' (Ldate OR Ltime OR Lshortfile)) \<and>
   f_name (files (snd (InitLog fresh)) ! 0) = ''/home/u/.local/state/jasm/jasmd.log'' \<and>
   stderr (snd (InitLog fresh)) = [] \<and> file_content (snd (InitLog fresh)) 0 = Some [] \<and>
   (\<exists>u w. Warnf Sprintf_s (snd (InitLog fresh)) ''disk %s'' [''full''] = Done u \<and>
          Infof Sprintf_s u ''up %s'' [''again''] = Done w \<and>
          stderr w = ''WARNING: 2024/03/09 07:05:01 main.go:42: disk full\<newline>''
                       @ ''[jasmd] up again\<newline>'' \<and>
          file_content w 0 = Some (''WARNING: 2024/03/09 07:05:01 main.go:42: disk full\<newline>''
                                   @ ''[jasmd] up again\<newline>'') \<and>
          log_ready w 0)"
proof -
  let ?t = "snd (InitLog fresh)"
  have a: "InitLog fresh = ((Some 0, None), ?t)"
    by (simp add: InitLog_fresh)
  have f0: "length (files fresh) = 0"
    by (simp add: fresh_def)
  have n: "f_name (files ?t ! 0) = ''/home/u/.local/state/jasm/jasmd.log''"
    by (simp add: InitLog_fresh)
  have e0: "stderr ?t = []"
    by (simp add: InitLog_fresh, simp add: fresh_def)
  have c0: "file_content ?t 0 = Some []"
    by (simp add: InitLog_fresh file_content_def)
  have amb: "now ?t = clock0" "caller ?t 2 = Some (''/src/app/main.go'', 42)"
    by (simp_all add: InitLog_fresh, simp_all add: fresh_def)
  have "date_stamp clock0 = ''2024/03/09''" "time_stamp clock0 = ''07:05:01''"
    "short_name ''/src/app/main.go'' @ '':'' @ itoa 42 (- 1) = ''main.go:42''"
    by code_simp+
  with amb have l1: "log_line ?t (bound_logger (Some 0) ''WARNING: '' (Ldate OR Ltime OR Lshortfile))
                    2 (formatted Sprintf_s ''disk %s'' [''full''])
                  = ''WARNING: 2024/03/09 07:05:01 main.go:42: disk full\<newline>''"
    by (simp add: log_line_stamped bound_logger_def call_site_def ensure_newline_def
          formatted_def)
  note first = InitLog_success_binds_loggers [OF a, where v = ?t and Sprintf = Sprintf_s
       and msg = "''disk %s''" and args = "[''full'']" and b = "[]" and calldepth = 1
       and pre = "''ERROR: ''"]
  from first have i: "info ?t = Some (bound_logger (Some 0) ''[jasmd] '' 0)"
    by blast
  from first have e: "errorl ?t
     = Some (bound_logger (Some 0) ''ERROR: '' (Ldate OR Ltime OR Lshortfile))"
    by blast
  from first have r0: "log_ready ?t (length (files fresh))"
    by blast
  from first r0 obtain u where u: "Warnf Sprintf_s ?t ''disk %s'' [''full''] = Done u"
    "emitted ?t u (length (files fresh))
       (log_line ?t (bound_logger (Some 0) ''WARNING: '' (Ldate OR Ltime OR Lshortfile)) 2
          (formatted Sprintf_s ''disk %s'' [''full'']))"
    "log_ready u (length (files fresh))" "same_loggers ?t u"
    by blast
  from u(4) have iu: "info u = info ?t"
    by (simp add: same_loggers_def)
  note second = InitLog_success_binds_loggers [OF a, where v = u and Sprintf = Sprintf_s
       and msg = "''up %s''" and args = "[''again'']" and b = "[]" and calldepth = 1
       and pre = "''ERROR: ''"]
  from second u(3) iu obtain w where w: "Infof Sprintf_s u ''up %s'' [''again''] = Done w"
    "emitted u w (length (files fresh))
       (log_line u (bound_logger (Some 0) ''[jasmd] '' 0) 1
          (formatted Sprintf_s ''up %s'' [''again'']))"
    "log_ready w (length (files fresh))"
    by blast
  have l2: "log_line u (bound_logger (Some 0) ''[jasmd] '' 0) 1
              (formatted Sprintf_s ''up %s'' [''again'']) = ''[jasmd] up again\<newline>''"
    by (simp add: log_line_plain bound_logger_def ensure_newline_def formatted_def)
  from u(2) e0 c0 have su: "stderr u = ''WARNING: 2024/03/09 07:05:01 main.go:42: disk full\<newline>''"
    and cu: "file_content u 0 = Some ''WARNING: 2024/03/09 07:05:01 main.go:42: disk full\<newline>''"
    unfolding f0 l1 by (simp_all add: emitted_def)
  from w(2) su cu have sw: "stderr w = ''WARNING: 2024/03/09 07:05:01 main.go:42: disk full\<newline>''
                       @ ''[jasmd] up again\<newline>''"
    and cw: "file_content w 0 = Some (''WARNING: 2024/03/09 07:05:01 main.go:42: disk full\<newline>''
                                   @ ''[jasmd] up again\<newline>'')"
    unfolding f0 l2 by (simp_all add: emitted_def)
  from w(3) have rw: "log_ready w 0"
    unfolding f0 .
  from u(1) w(1) sw cw rw
  have "\<exists>u w. Warnf Sprintf_s ?t ''disk %s'' [''full''] = Done u \<and>
          Infof Sprintf_s u ''up %s'' [''again''] = Done w \<and>
          stderr w = ''WARNING: 2024/03/09 07:05:01 main.go:42: disk full\<newline>''
                       @ ''[jasmd] up again\<newline>'' \<and>
          file_content w 0 = Some (''WARNING: 2024/03/09 07:05:01 main.go:42: disk full\<newline>''
                                   @ ''[jasmd] up again\<newline>'') \<and>
          log_ready w 0"
    by blast
  with a i e n e0 c0 show ?thesis
    by blast
qed

subsection \<open>A failing InitLog\<close>

text \<open>
  Claim C2, as amended. Every call of \<open>InitLog\<close> that returns an error returns a \<open>nil\<close>
  handle with it, the error carries the message of its cause (behind the prefix
  \<open>open logFile:\<close> when the file could not be opened), and the four logger variables
  and the toggle are what they were before the call. So after a failing first call the
  variables are \<open>nil\<close> and each logging function returns without a change of state; and
  in every case no logging function panics. (After an earlier successful \<open>InitLog\<close> the
  loggers of that call stay in place: the counterexample below.)
\<close>

theorem failing_InitLog_keeps_loggers:
  assumes "InitLog s = ((f, Some e), t)"
  shows "f = None \<and> (\<exists>pre cause. e = fmt_Errorf pre cause) \<and> same_loggers s t \<and>
     (dbg s = None \<longrightarrow> Debugf Sprintf t message args = Done t) \<and>
     (info s = None \<longrightarrow> Infof Sprintf t message args = Done t) \<and>
     (warn s = None \<longrightarrow> Warnf Sprintf t message args = Done t) \<and>
     (errorl s = None \<longrightarrow> Errorf Sprintf t message args = Done t) \<and>
     Debugf Sprintf t message args \<noteq> Panic \<and> Infof Sprintf t message args \<noteq> Panic \<and>
     Warnf Sprintf t message args \<noteq> Panic \<and> Errorf Sprintf t message args \<noteq> Panic"
proof -
  from assms have "snd (fst (InitLog s)) \<noteq> None"
    by simp
  from InitLog_failure [OF this] assms
  have a: "f = None" "same_loggers s t" "\<exists>pre cause. e = fmt_Errorf pre cause"
    by auto
  from a(2) have
    "dbg s = None \<longrightarrow> Debugf Sprintf t message args = Done t"
    "info s = None \<longrightarrow> Infof Sprintf t message args = Done t"
    "warn s = None \<longrightarrow> Warnf Sprintf t message args = Done t"
    "errorl s = None \<longrightarrow> Errorf Sprintf t message args = Done t"
    by (simp_all add: same_loggers_def Debugf_def Infof_def Warnf_def Errorf_def)
  with a logging_never_panics [of Sprintf t message args] show ?thesis
    by blast
qed

theorem failing_InitLog_keeps_loggers_witness:
  "InitLog fresh_no_home = ((None, Some (ErrorString ''$HOME is not defined'')), fresh_no_home) \<and>
   info fresh_no_home = None \<and> dbg fresh_no_home = None \<and> warn fresh_no_home = None \<and>
   errorl fresh_no_home = None \<and>
   Infof Sprintf_s fresh_no_home ''x'' [] = Done fresh_no_home \<and>
   Debugf Sprintf_s fresh_no_home ''x'' [] = Done fresh_no_home \<and>
   Warnf Sprintf_s fresh_no_home ''x'' [] = Done fresh_no_home \<and>
   Errorf Sprintf_s fresh_no_home ''x'' [] = Done fresh_no_home"
proof -
  have nil: "info fresh_no_home = None" "dbg fresh_no_home = None" "warn fresh_no_home = None"
    "errorl fresh_no_home = None"
    by (simp_all add: fresh_no_home_def fresh_def)
  from nil failing_InitLog_keeps_loggers [OF InitLog_fresh_no_home, of Sprintf_s "''x''" "[]"]
  show ?thesis
    using InitLog_fresh_no_home by simp
qed

text \<open>
  The claim as it was stated fails after an earlier success: \<open>InitLog\<close> succeeds, then the
  log file can no longer be opened for writing; the next \<open>InitLog\<close> returns \<open>nil\<close> and an
  error, the info logger is still there, and \<open>Infof("x")\<close> writes a line.
\<close>

theorem failing_InitLog_after_success_counterexample:
  "InitLog running_denied =
     ((None, Some (ErrorString
        ''open logFile: open /home/u/.local/state/jasm/jasmd.log: permission denied'')),
      running_denied) \<and>
   info running_denied = Some (bound_logger (Some 0) ''[jasmd] '' 0) \<and>
   stderr running_denied = [] \<and>
   stderr_after (Infof Sprintf_s running_denied ''x'' []) = ''[jasmd] x\<newline>''"
proof -
  have i: "info running_denied = Some (bound_logger (Some 0) ''[jasmd] '' 0)"
    and e: "stderr running_denied = []"
    using running_loggers by (simp_all add: running_denied_def)
  have "stderr_after (map_outcome snd (Logger_Output running_denied
           (Some (bound_logger (Some 0) ''[jasmd] '' 0)) 1 ''x''))
        = stderr running_denied @ log_line running_denied (bound_logger (Some 0) ''[jasmd] '' 0) 1 ''x''"
    by (rule Output_bound_stderr) (rule bound_logger_out)
  then have "stderr_after (Infof Sprintf_s running_denied ''x'' []) = ''[jasmd] x\<newline>''"
    by (simp add: Infof_unfold [OF i] formatted_def e log_line_plain bound_logger_def
          ensure_newline_def)
  with i e InitLog_running_denied show ?thesis
    by simp
qed


subsection \<open>The state directory\<close>

text \<open>
  Claim C10. Whenever \<open>XDG_STATE_HOME\<close> is present in the environment, with whatever
  value \<open>v\<close> (the empty string too), \<open>setStateDir\<close> does not depend on \<open>HOME\<close>: setting
  \<open>HOME\<close> to anything, or unsetting it, changes neither what \<open>setStateDir\<close> returns nor
  what it does to the file system. The path it creates and returns is \<open>Join(v, "jasm")\<close>,
  which for the empty \<open>v\<close> is the relative path \<open>jasm\<close>.
\<close>

theorem override_never_consults_home:
  assumes "environ s ''XDG_STATE_HOME'' = Some v"
  shows "setStateDir (s\<lparr>environ := (environ s)(''HOME'' := h)\<rparr>)
           = (fst (setStateDir s), (snd (setStateDir s))\<lparr>environ := (environ s)(''HOME'' := h)\<rparr>) \<and>
         (fst (setStateDir s) = (p, None) \<longrightarrow> p = Join [v, ''jasm'']) \<and>
         snd (setStateDir s) = snd (MkdirAll s (Join [v, ''jasm'']) (oct 7 0 0)) \<and>
         (v = [] \<longrightarrow> Join [v, ''jasm''] = ''jasm'' \<and> \<not> IsAbs ''jasm'')"
proof -
  let ?s = "s\<lparr>environ := (environ s)(''HOME'' := h)\<rparr>"
  let ?d = "Join [v, jasmDir]"
  have b: "spec_base s = Inr v"
    using assms by (rule spec_base_override)
  have b': "spec_base ?s = Inr v"
    using assms by (simp add: spec_base_def)
  obtain e s' where mk: "MkdirAll s ?d (oct 7 0 0) = (e, s')"
    by (cases "MkdirAll s ?d (oct 7 0 0)") auto
  then have mk': "MkdirAll ?s ?d (oct 7 0 0) = (e, s'\<lparr>environ := (environ s)(''HOME'' := h)\<rparr>)"
    by (simp add: MkdirAll_environ)
  have u: "setStateDir s =
             (case e of None \<Rightarrow> ((?d, None), s')
              | Some err \<Rightarrow> if \<not> IsExist (Some err) then (([], Some (fmt_Errorf [] err)), s')
                            else ((?d, None), s'))"
    by (simp add: setStateDir_unfold b mk split: option.splits)
  have u': "setStateDir ?s =
             (case e of None \<Rightarrow> ((?d, None), s'\<lparr>environ := (environ s)(''HOME'' := h)\<rparr>)
              | Some err \<Rightarrow> if \<not> IsExist (Some err)
                            then (([], Some (fmt_Errorf [] err)),
                                  s'\<lparr>environ := (environ s)(''HOME'' := h)\<rparr>)
                            else ((?d, None), s'\<lparr>environ := (environ s)(''HOME'' := h)\<rparr>))"
    by (simp add: setStateDir_unfold b' mk' split: option.splits)
  have 1: "setStateDir ?s = (fst (setStateDir s), (snd (setStateDir s))\<lparr>environ := (environ s)(''HOME'' := h)\<rparr>)"
    unfolding u u' by (simp split: option.splits)
  have 2: "fst (setStateDir s) = (p, None) \<longrightarrow> p = Join [v, ''jasm'']"
    unfolding u by (simp add: jasmDir_def split: option.splits if_splits)
  have 3: "snd (setStateDir s) = snd (MkdirAll s (Join [v, ''jasm'']) (oct 7 0 0))"
    unfolding u using mk by (simp add: jasmDir_def split: option.splits)
  have 4: "v = [] \<longrightarrow> Join [v, ''jasm''] = ''jasm'' \<and> \<not> IsAbs ''jasm''"
    using Clean_plain [OF plain_names(1)] by (simp add: Join.simps jasmDir_def IsAbs_def)
  from 1 2 3 4 show ?thesis
    by blast
qed

theorem override_never_consults_home_witness:
  "environ fresh_xdg_empty ''XDG_STATE_HOME'' = Some [] \<and>
   fst (setStateDir fresh_xdg_empty) = (''jasm'', None) \<and>
   fst (setStateDir (fresh_xdg_empty\<lparr>environ := (environ fresh_xdg_empty)(''HOME'' := None)\<rparr>))
     = (''jasm'', None) \<and>
   \<not> IsAbs ''jasm''"
proof -
  have a: "environ fresh_xdg_empty ''XDG_STATE_HOME'' = Some []"
    by (simp add: fresh_xdg_empty_def)
  from override_never_consults_home [OF a, of None "''jasm''"] setStateDir_fresh_xdg_empty a
  show ?thesis
    by simp
qed

text \<open>
  Claim C3, as amended. Whenever \<open>setStateDir\<close> returns without error, the path it
  returns ends with the element \<open>jasm\<close>; it is absolute exactly when the base directory
  is, that is the value of \<open>XDG_STATE_HOME\<close> when that is set and the home directory
  otherwise; and when \<open>MkdirAll\<close> reported no error, the path is a directory on disk at
  the moment \<open>setStateDir\<close> returns.
\<close>

theorem setStateDir_result_path:
  assumes "fst (setStateDir s) = (p, None)"
  shows "ends_with_elem ''jasm'' p \<and>
         (IsAbs p \<longleftrightarrow> (case environ s ''XDG_STATE_HOME'' of
                        Some v \<Rightarrow> IsAbs v
                      | None \<Rightarrow> IsAbs (Getenv s ''HOME''))) \<and>
         (fst (MkdirAll s p (oct 7 0 0)) = None \<longrightarrow>
            (\<exists>md. Stat (snd (setStateDir s)) p = Inr (Dir md)))"
proof (cases rule: setStateDir_cases [of s])
  case (base_error err)
  with assms show ?thesis
    by simp
next
  case (mkdir_error base err s')
  with assms show ?thesis
    by simp
next
  case (ok base e s')
  with assms have p: "p = Join [base, jasmDir]"
    by simp
  have 1: "ends_with_elem ''jasm'' p"
    using Join_last_elem [OF plain_names(1), of base]
    by (simp add: p ends_with_elem_def jasmDir_def)
  have abs: "IsAbs p = IsAbs base"
    unfolding p by (rule IsAbs_Join [OF plain_names(1)])
  have 2: "IsAbs p \<longleftrightarrow> (case environ s ''XDG_STATE_HOME'' of
                        Some v \<Rightarrow> IsAbs v
                      | None \<Rightarrow> IsAbs (Getenv s ''HOME''))"
  proof (cases "environ s ''XDG_STATE_HOME''")
    case (Some v)
    with spec_base_override [OF Some] ok(1) abs show ?thesis
      by simp
  next
    case None
    from spec_base_home [OF None ok(1)] abs None show ?thesis
      by (simp add: IsAbs_home_base)
  qed
  have 3: "fst (MkdirAll s p (oct 7 0 0)) = None \<longrightarrow>
            (\<exists>md. Stat (snd (setStateDir s)) p = Inr (Dir md))"
  proof
    assume "fst (MkdirAll s p (oct 7 0 0)) = None"
    with ok(2) p have "MkdirAll s p (oct 7 0 0) = (None, s')"
      by simp
    from MkdirAll_creates [OF this] ok(4) show "\<exists>md. Stat (snd (setStateDir s)) p = Inr (Dir md)"
      by simp
  qed
  from 1 2 3 show ?thesis
    by blast
qed

theorem setStateDir_result_path_witness:
  "fst (setStateDir fresh) = (''/home/u/.local/state/jasm'', None) \<and>
   fst (MkdirAll fresh ''/home/u/.local/state/jasm'' (oct 7 0 0)) = None \<and>
   ends_with_elem ''jasm'' ''/home/u/.local/state/jasm'' \<and>
   IsAbs ''/home/u/.local/state/jasm'' \<and>
   (\<exists>md. Stat (snd (setStateDir fresh)) ''/home/u/.local/state/jasm'' = Inr (Dir md))"
proof -
  have a: "fst (setStateDir fresh) = (''/home/u/.local/state/jasm'', None)"
    by (simp add: setStateDir_fresh)
  have b: "fst (MkdirAll fresh ''/home/u/.local/state/jasm'' (oct 7 0 0)) = None"
    by (simp add: fresh_def eval_defs Let_def)
  have c: "environ fresh ''XDG_STATE_HOME'' = None" "IsAbs (Getenv fresh ''HOME'')"
    by (simp_all add: fresh_def Getenv_def LookupEnv_def IsAbs_def)
  from setStateDir_result_path [OF a] a b c show ?thesis
    by simp
qed

text \<open>
  The claim as it was stated fails where the base directory is not absolute: with the
  override set to the empty string the result is the relative path \<open>jasm\<close>.
\<close>

theorem setStateDir_relative_counterexample:
  "fst (setStateDir fresh_xdg_empty) = (''jasm'', None) \<and> \<not> IsAbs ''jasm''"
  by (simp add: setStateDir_fresh_xdg_empty IsAbs_def)


text \<open>
  Claim C4. \<open>setStateDir\<close> computes what the algorithm of the specification computes
  (\<open>setStateDir_spec\<close>: the base is the value of \<open>XDG_STATE_HOME\<close>, or the home directory
  joined with \<open>.local/state\<close> when the variable is absent; the base is joined with
  \<open>jasm\<close>; the path is created by \<open>MkdirAll\<close> with mode \<open>0700\<close>, an "already exists"
  error counting as success and any other as an error). With the override unset and the
  home directory \<open>/home/u\<close> a successful call returns \<open>/home/u/.local/state/jasm\<close>. Every
  entry the call adds to the file system is a directory of mode \<open>0700\<close>, less the bits of
  the umask.
\<close>

theorem setStateDir_algorithm:
  "setStateDir s = setStateDir_spec s \<and>
   (environ s ''XDG_STATE_HOME'' = None \<and> environ s ''HOME'' = Some ''/home/u'' \<and>
    fst (setStateDir s) = (p, None) \<longrightarrow> p = ''/home/u/.local/state/jasm'') \<and>
   (fs s k = None \<and> fs (snd (setStateDir s)) k = Some n \<longrightarrow>
      n = Dir (oct 7 0 0 AND NOT (umask s)))"
proof -
  have 1: "setStateDir s = setStateDir_spec s"
  proof (cases "spec_base s")
    case (Inl err)
    then show ?thesis
      by (simp add: setStateDir_unfold setStateDir_spec_def fmt_Errorf_def)
  next
    case (Inr base)
    obtain e s' where mk: "MkdirAll s (Join [base, jasmDir]) (oct 7 0 0) = (e, s')"
      by (cases "MkdirAll s (Join [base, jasmDir]) (oct 7 0 0)") auto
    with Inr show ?thesis
      by (cases e)
         (simp_all add: setStateDir_unfold setStateDir_spec_def spec_create_eq fmt_Errorf_def
            jasmDir_def)
  qed
  have 2: "environ s ''XDG_STATE_HOME'' = None \<and> environ s ''HOME'' = Some ''/home/u'' \<and>
    fst (setStateDir s) = (p, None) \<longrightarrow> p = ''/home/u/.local/state/jasm''"
  proof
    assume a: "environ s ''XDG_STATE_HOME'' = None \<and> environ s ''HOME'' = Some ''/home/u'' \<and>
               fst (setStateDir s) = (p, None)"
    then have b: "spec_base s = Inr (Join [''/home/u'', ''.local/state''])"
      by (simp add: spec_base_def UserHomeDir_def Getenv_def LookupEnv_def)
    have j: "Join [Join [''/home/u'', ''.local/state''], jasmDir] = ''/home/u/.local/state/jasm''"
      by code_simp
    from a b j show "p = ''/home/u/.local/state/jasm''"
      by (cases rule: setStateDir_cases [of s]) simp_all
  qed
  have 3: "fs s k = None \<and> fs (snd (setStateDir s)) k = Some n \<longrightarrow>
      n = Dir (oct 7 0 0 AND NOT (umask s))"
  proof
    assume a: "fs s k = None \<and> fs (snd (setStateDir s)) k = Some n"
    show "n = Dir (oct 7 0 0 AND NOT (umask s))"
    proof (cases rule: setStateDir_cases [of s])
      case (base_error err)
      with a show ?thesis
        by auto
    next
      case (mkdir_error base err s')
      with a MkdirAll_new_entries [of s "Join [base, jasmDir]" "oct 7 0 0" k n] show ?thesis
        by simp
    next
      case (ok base e s')
      with a MkdirAll_new_entries [of s "Join [base, jasmDir]" "oct 7 0 0" k n] show ?thesis
        by simp
    qed
  qed
  from 1 2 3 show ?thesis
    by blast
qed

theorem setStateDir_algorithm_witness:
  "environ fresh ''XDG_STATE_HOME'' = None \<and> environ fresh ''HOME'' = Some ''/home/u'' \<and>
   fst (setStateDir fresh) = (''/home/u/.local/state/jasm'', None) \<and>
   fst (setStateDir_spec fresh) = (''/home/u/.local/state/jasm'', None) \<and>
   fs fresh [''home'', ''u'', ''.local''] = None \<and>
   fs (snd (setStateDir fresh)) [''home'', ''u'', ''.local''] = Some (Dir (oct 7 0 0)) \<and>
   fs (snd (setStateDir fresh)) [''home'', ''u'', ''.local'', ''state''] = Some (Dir (oct 7 0 0)) \<and>
   fs (snd (setStateDir fresh)) [''home'', ''u'', ''.local'', ''state'', ''jasm'']
     = Some (Dir (oct 7 0 0)) \<and>
   oct 7 0 0 AND NOT (umask fresh) = oct 7 0 0"
proof -
  have e: "environ fresh ''XDG_STATE_HOME'' = None" "environ fresh ''HOME'' = Some ''/home/u''"
    "fs fresh [''home'', ''u'', ''.local''] = None"
    by (simp_all add: fresh_def)
  have r: "fst (setStateDir fresh) = (''/home/u/.local/state/jasm'', None)"
    "fs (snd (setStateDir fresh)) [''home'', ''u'', ''.local''] = Some (Dir (oct 7 0 0))"
    "fs (snd (setStateDir fresh)) [''home'', ''u'', ''.local'', ''state''] = Some (Dir (oct 7 0 0))"
    "fs (snd (setStateDir fresh)) [''home'', ''u'', ''.local'', ''state'', ''jasm'']
       = Some (Dir (oct 7 0 0))"
    by (simp_all add: setStateDir_fresh)
  from e r
    setStateDir_algorithm [of fresh "''/home/u/.local/state/jasm''" "[''home'', ''u'', ''.local'']"
      "Dir (oct 7 0 0)"]
  show ?thesis
    by simp
qed


subsection \<open>The client log\<close>

text \<open>
  Claim C9. \<open>InitClientLog\<close> leaves the four logger variables and the debug toggle as
  they were, from every state. It returns a handle and no error, or no handle and an
  error. When it returns a handle, \<open>setStateDir\<close> had succeeded, the handle is a new
  \<open>os.File\<close> object, open, in append mode and writable, with the flags
  \<open>O_APPEND|O_CREATE|O_WRONLY\<close> (of which the access mode is write-only), on the file
  \<open>jasmd_clients.log\<close> in the state directory, and that file exists as a regular file. Its
  name differs from the name of the primary log in the same directory.
\<close>

theorem InitClientLog_only_opens_the_file:
  "same_loggers s (snd (InitClientLog s)) \<and>
   ((\<exists>h. fst (InitClientLog s) = (Some h, None)) \<or> (\<exists>e. fst (InitClientLog s) = (None, Some e))) \<and>
   (fst (InitClientLog s) = (f, None) \<longrightarrow>
      f = Some (length (files s)) \<and>
      snd (fst (setStateDir s)) = None \<and>
      log_ready (snd (InitClientLog s)) (length (files s)) \<and>
      length (files (snd (InitClientLog s))) = Suc (length (files s)) \<and>
      f_name (files (snd (InitClientLog s)) ! length (files s))
        = Join [fst (fst (setStateDir s)), clientsLogFile] \<and>
      f_flag (files (snd (InitClientLog s)) ! length (files s))
        = O_APPEND OR O_CREATE OR O_WRONLY \<and>
      (\<exists>md d. Stat (snd (InitClientLog s)) (Join [fst (fst (setStateDir s)), clientsLogFile])
                = Inr (File md d))) \<and>
   Join [d, clientsLogFile] \<noteq> Join [d, fileLog] \<and>
   (O_APPEND OR O_CREATE OR O_WRONLY) AND (O_WRONLY OR O_RDWR) = O_WRONLY"
proof -
  obtain p e1 s1 where sd: "setStateDir s = ((p, e1), s1)"
    by (cases "setStateDir s") auto
  have l1: "same_loggers s s1"
    using setStateDir_same_loggers [of s] sd by simp
  have keep: "files s1 = files s"
    using setStateDir_keeps [of s] sd by simp
  let ?name = "Join [p, clientsLogFile]"
  let ?flags = "O_APPEND OR O_CREATE OR O_WRONLY"
  have main: "same_loggers s (snd (InitClientLog s)) \<and>
   ((\<exists>h. fst (InitClientLog s) = (Some h, None)) \<or> (\<exists>e. fst (InitClientLog s) = (None, Some e))) \<and>
   (fst (InitClientLog s) = (f, None) \<longrightarrow>
      f = Some (length (files s)) \<and>
      snd (fst (setStateDir s)) = None \<and>
      log_ready (snd (InitClientLog s)) (length (files s)) \<and>
      length (files (snd (InitClientLog s))) = Suc (length (files s)) \<and>
      f_name (files (snd (InitClientLog s)) ! length (files s))
        = Join [fst (fst (setStateDir s)), clientsLogFile] \<and>
      f_flag (files (snd (InitClientLog s)) ! length (files s)) = ?flags \<and>
      (\<exists>md d. Stat (snd (InitClientLog s)) (Join [fst (fst (setStateDir s)), clientsLogFile])
                = Inr (File md d)))"
  proof (cases e1)
    case (Some e)
    with sd l1 show ?thesis
      by (simp add: InitClientLog_setStateDir_error)
  next
    case None
    obtain f' e2 s2 where op: "OpenFile s1 ?name ?flags (oct 6 6 6) = ((f', e2), s2)"
      by (cases "OpenFile s1 ?name ?flags (oct 6 6 6)") auto
    have l2: "same_loggers s1 s2"
      using OpenFile_same_loggers [of s1 ?name ?flags "oct 6 6 6"] op by simp
    note l = same_loggers_trans [OF l1 l2]
    note ic = InitClientLog_open [OF sd [unfolded None] op]
    show ?thesis
    proof (cases e2)
      case (Some err)
      with ic l show ?thesis
        by simp
    next
      case N2: None
      from OpenFile_log_ok [OF op [unfolded N2]] keep
      have o: "f' = Some (length (files s))" "log_ready s2 (length (files s))"
        "files s2 = files s @ [\<lparr>f_key = key_of s1 ?name, f_name = ?name, f_flag = ?flags,
                                 f_off = 0, f_closed = False\<rparr>]"
        by simp_all
      from OpenFile_log_exists [OF op [unfolded N2]]
      have ex: "\<exists>md d. Stat s2 ?name = Inr (File md d)" .
      from ic N2 have r: "InitClientLog s = ((f', None), s2)"
        by simp
      from o ex l sd None show ?thesis
        by (auto simp: r)
    qed
  qed
  from main log_names_differ [of d] log_flags_write_only show ?thesis
    by blast
qed

theorem InitClientLog_only_opens_the_file_witness:
  "fst (InitClientLog fresh) = (Some 0, None) \<and>
   same_loggers fresh (snd (InitClientLog fresh)) \<and>
   f_name (files (snd (InitClientLog fresh)) ! 0) = ''/home/u/.local/state/jasm/jasmd_clients.log'' \<and>
   (\<exists>md d. Stat (snd (InitClientLog fresh)) ''/home/u/.local/state/jasm/jasmd_clients.log''
             = Inr (File md d)) \<and>
   info (snd (InitClientLog fresh)) = None"
proof -
  have a: "length (files fresh) = 0" "info fresh = None"
    by (simp_all add: fresh_def)
  have j: "Join [fst (fst (setStateDir fresh)), clientsLogFile]
             = ''/home/u/.local/state/jasm/jasmd_clients.log''"
    by (simp add: setStateDir_fresh, code_simp)
  note inst = InitClientLog_only_opens_the_file [of fresh "Some 0" "[]"]
  from inst have sl: "same_loggers fresh (snd (InitClientLog fresh))"
    by blast
  from inst InitClientLog_fresh
  have n: "f_name (files (snd (InitClientLog fresh)) ! length (files fresh))
        = Join [fst (fst (setStateDir fresh)), clientsLogFile]"
    and st: "\<exists>md d. Stat (snd (InitClientLog fresh))
                      (Join [fst (fst (setStateDir fresh)), clientsLogFile]) = Inr (File md d)"
    by blast+
  from sl a have i: "info (snd (InitClientLog fresh)) = None"
    by (simp add: same_loggers_def)
  from InitClientLog_fresh sl n st i show ?thesis
    unfolding a j by blast
qed

end
